theory Spec2Isabelle
  imports Main "HOL-Library.Sublist"
begin

section \<open>JavaScript strings\<close>

text \<open>
  A string is a list of bytes.  \<open>toLowerCase\<close>, \<open>trim\<close> and the \<open>i\<close> flag of a regular
  expression are modelled on ASCII: the letters \<open>A\<close> to \<open>Z\<close> change case, the characters
  tab, line feed, vertical tab, form feed, carriage return and space are white space, and
  every other byte is left alone.  The menu and the directive keywords are ASCII.
\<close>

definition upperLetters :: string where
  "upperLetters = ''ABCDEFGHIJKLMNOPQRSTUVWXYZ''"

definition lowerLetters :: string where
  "lowerLetters = ''abcdefghijklmnopqrstuvwxyz''"

definition toLowerChar :: "char \<Rightarrow> char" where
  "toLowerChar c = (case map_of (zip upperLetters lowerLetters) c of Some l \<Rightarrow> l | None \<Rightarrow> c)"

definition toUpperChar :: "char \<Rightarrow> char" where
  "toUpperChar c = (case map_of (zip lowerLetters upperLetters) c of Some u \<Rightarrow> u | None \<Rightarrow> c)"

definition toLowerCase :: "string \<Rightarrow> string" where
  "toLowerCase s = map toLowerChar s"

definition isSpace :: "char \<Rightarrow> bool" where
  "isSpace c = (c \<in> set [CHR 0x09, CHR 0x0A, CHR 0x0B, CHR 0x0C, CHR 0x0D, CHR 0x20])"

definition isDigit :: "char \<Rightarrow> bool" where
  "isDigit c = (c \<in> set ''0123456789'')"

definition trim :: "string \<Rightarrow> string" where
  "trim s = rev (dropWhile isSpace (rev (dropWhile isSpace s)))"

text \<open>\<open>s.includes(p)\<close>: \<open>p\<close> occurs in \<open>s\<close> as a contiguous run; the empty string occurs everywhere.\<close>

fun startsWith :: "string \<Rightarrow> string \<Rightarrow> bool" where
  "startsWith s [] = True"
| "startsWith [] (p # ps) = False"
| "startsWith (c # cs) (p # ps) = (c = p \<and> startsWith cs ps)"

fun str_includes :: "string \<Rightarrow> string \<Rightarrow> bool" where
  "str_includes [] p = (p = [])"
| "str_includes (c # cs) p = (startsWith (c # cs) p \<or> str_includes cs p)"

text \<open>\<open>parseInt(s, 10)\<close> on a string that starts with decimal digits, which is what \<open>\d+\<close> captures.\<close>

definition digitVal :: "char \<Rightarrow> int" where
  "digitVal c = (case map_of (zip ''0123456789'' [0, 1, 2, 3, 4, 5, 6, 7, 8, 9]) c of
                   Some d \<Rightarrow> d | None \<Rightarrow> 0)"

definition parseInt :: "string \<Rightarrow> int" where
  "parseInt s = foldl (\<lambda>a c. 10 * a + digitVal c) 0 (takeWhile isDigit s)"

section \<open>Order state of the text-directive server (server/index.js)\<close>

text \<open>
  A menu entry has the fields \<open>id\<close>, \<open>name\<close>, \<open>price\<close> and \<open>description\<close>; an order line
  has \<open>id\<close>, \<open>name\<close>, \<open>price\<close> and \<open>quantity\<close>.  The field names carry a prefix here
  (\<open>m\<close> for the menu entry, \<open>l\<close> for the order line) because \<open>id\<close> is a constant of HOL and
  two records cannot share a field name.  Prices and quantities are JavaScript numbers that
  the program only ever fills with integers (menu constants, \<open>parseInt\<close> of a digit string);
  they are modelled as \<open>int\<close>, which is exact below \<open>2^53\<close>.
\<close>

record menuItem =
  mid :: string
  mname :: string
  mprice :: int
  mdescription :: string

record orderLine =
  lid :: string
  lname :: string
  lprice :: int
  quantity :: int

record order =
  items :: "orderLine list"
  totalCost :: int

datatype role = User | Assistant

record session =
  chatHistory :: "(role \<times> string) list"
  currentOrder :: order

definition createNewSession :: session where
  "createNewSession = \<lparr>chatHistory = [], currentOrder = \<lparr>items = [], totalCost = 0\<rparr>\<rparr>"

text \<open>\<open>items.reduce((total, item) => total + item.price * item.quantity, 0)\<close>\<close>

definition calculateTotal :: "orderLine list \<Rightarrow> int" where
  "calculateTotal its = foldl (\<lambda>total item. total + lprice item * quantity item) 0 its"

text \<open>
  \<open>existingItem.quantity += quantity\<close> and \<open>item.quantity = newQuantity\<close> write through the
  reference that \<open>Array.prototype.find\<close> returned, which is the first line with the id.
\<close>

fun updateFirst :: "(orderLine \<Rightarrow> bool) \<Rightarrow> (orderLine \<Rightarrow> orderLine) \<Rightarrow> orderLine list \<Rightarrow> orderLine list" where
  "updateFirst P f [] = []"
| "updateFirst P f (x # xs) = (if P x then f x # xs else x # updateFirst P f xs)"

definition setItems :: "orderLine list \<Rightarrow> session \<Rightarrow> session" where
  "setItems its s = s\<lparr>currentOrder := (currentOrder s)\<lparr>items := its\<rparr>\<rparr>"

definition recalc :: "session \<Rightarrow> session" where
  "recalc s = s\<lparr>currentOrder := (currentOrder s)\<lparr>totalCost := calculateTotal (items (currentOrder s))\<rparr>\<rparr>"

definition addItemToOrder :: "menuItem \<Rightarrow> int \<Rightarrow> session \<Rightarrow> session" where
  "addItemToOrder menuItem qty s =
     (if qty \<le> 0 then s
      else (case find (\<lambda>item. lid item = mid menuItem) (items (currentOrder s)) of
              Some existingItem \<Rightarrow>
                recalc (setItems (updateFirst (\<lambda>item. lid item = mid menuItem)
                                    (\<lambda>item. item\<lparr>quantity := quantity item + qty\<rparr>)
                                    (items (currentOrder s))) s)
            | None \<Rightarrow>
                recalc (setItems (items (currentOrder s) @
                          [\<lparr>lid = mid menuItem, lname = mname menuItem,
                            lprice = mprice menuItem, quantity = qty\<rparr>]) s)))"

text \<open>
  The filter of \<open>removeItemFromOrder\<close> is the source's:
  \<open>items.filter(item => item.id === itemId)\<close>, which keeps the lines whose id equals the
  argument.  The total is recomputed only when the list became shorter.
\<close>

definition removeItemFromOrder :: "string \<Rightarrow> session \<Rightarrow> session" where
  "removeItemFromOrder itemId s =
     (let initialLength = length (items (currentOrder s));
          s1 = setItems (filter (\<lambda>item. lid item = itemId) (items (currentOrder s))) s
      in if length (items (currentOrder s1)) < initialLength then recalc s1 else s1)"

definition updateItemInOrder :: "string \<Rightarrow> int \<Rightarrow> session \<Rightarrow> session" where
  "updateItemInOrder itemId newQuantity s =
     (case find (\<lambda>item. lid item = itemId) (items (currentOrder s)) of
        Some item \<Rightarrow>
          (if newQuantity \<le> 0 then removeItemFromOrder itemId s
           else recalc (setItems (updateFirst (\<lambda>item. lid item = itemId)
                                    (\<lambda>item. item\<lparr>quantity := newQuantity\<rparr>)
                                    (items (currentOrder s))) s))
      | None \<Rightarrow> s)"

text \<open>A call of one of the three mutators, and a sequence of calls run from left to right.\<close>

datatype mutation =
    AddItem menuItem int
  | RemoveItem string
  | UpdateQuantity string int

fun applyMutation :: "session \<Rightarrow> mutation \<Rightarrow> session" where
  "applyMutation s (AddItem m q) = addItemToOrder m q s"
| "applyMutation s (RemoveItem i) = removeItemFromOrder i s"
| "applyMutation s (UpdateQuantity i q) = updateItemInOrder i q s"

definition applyMutations :: "mutation list \<Rightarrow> session \<Rightarrow> session" where
  "applyMutations ms s = foldl applyMutation s ms"

definition totalConsistent :: "session \<Rightarrow> bool" where
  "totalConsistent s = (totalCost (currentOrder s) = calculateTotal (items (currentOrder s)))"

section \<open>The menu and menu resolution\<close>

text \<open>
  \<open>MENU.categories\<close> is an object whose keys are visited in insertion order (\<open>mains\<close>,
  \<open>drinks\<close>, \<open>sides\<close>); it is modelled as an association list.  The entry with id
  \<open>5_alive\<close> is the constant \<open>five_alive\<close>.
\<close>

record category =
  cat_name :: string
  cat_items :: "menuItem list"

type_synonym menu = "(string \<times> category) list"

definition jollof_rice :: menuItem where
  "jollof_rice = \<lparr>mid = ''jollof_rice'', mname = ''Jollof Rice'', mprice = 2500,
     mdescription = ''Spicy Nigerian rice with tomatoes and spices and chicken''\<rparr>"

definition fried_rice :: menuItem where
  "fried_rice = \<lparr>mid = ''fried_rice'', mname = ''Fried Rice'', mprice = 2800,
     mdescription = ''Mixed vegetables fried rice and chicken''\<rparr>"

definition chicken_shawarma :: menuItem where
  "chicken_shawarma = \<lparr>mid = ''chicken_shawarma'', mname = ''Chicken Shawarma'', mprice = 2800,
     mdescription = ''Grilled chicken with vegetables''\<rparr>"

definition pounded_yam :: menuItem where
  "pounded_yam = \<lparr>mid = ''pounded_yam'', mname = ''Pounded Yam with Egusi'', mprice = 3500,
     mdescription = ''Traditional pounded yam with egusi soup''\<rparr>"

definition suya :: menuItem where
  "suya = \<lparr>mid = ''suya'', mname = ''Suya Platter'', mprice = 2000,
     mdescription = ''Grilled spiced meat skewers''\<rparr>"

definition beef_burger :: menuItem where
  "beef_burger = \<lparr>mid = ''beef_burger'', mname = ''Beef Burger'', mprice = 2000,
     mdescription = ''Beef burger with lettuce, tomato, and onion''\<rparr>"

definition zobo :: menuItem where
  "zobo = \<lparr>mid = ''zobo'', mname = ''Zobo Drink'', mprice = 800,
     mdescription = ''Traditional Nigerian hibiscus drink''\<rparr>"

definition chapman :: menuItem where
  "chapman = \<lparr>mid = ''chapman'', mname = ''Chapman'', mprice = 1200,
     mdescription = ''Nigerian cocktail with fruits''\<rparr>"

definition water :: menuItem where
  "water = \<lparr>mid = ''water'', mname = ''Bottled Water'', mprice = 300,
     mdescription = ''500ml bottled water''\<rparr>"

definition five_alive :: menuItem where
  "five_alive = \<lparr>mid = ''5_alive'', mname = ''5 Alive'', mprice = 1500,
     mdescription = ''5 Alive drink''\<rparr>"

definition soft_drink :: menuItem where
  "soft_drink = \<lparr>mid = ''soft_drink'', mname = ''Soft Drink'', mprice = 500,
     mdescription = ''Coca-Cola, Pepsi, or Sprite''\<rparr>"

definition plantain :: menuItem where
  "plantain = \<lparr>mid = ''plantain'', mname = ''Fried Plantain'', mprice = 800,
     mdescription = ''Sweet fried plantain slices''\<rparr>"

definition moi_moi :: menuItem where
  "moi_moi = \<lparr>mid = ''moi_moi'', mname = ''Moi Moi'', mprice = 1000,
     mdescription = ''Steamed bean pudding''\<rparr>"

definition salad :: menuItem where
  "salad = \<lparr>mid = ''salad'', mname = ''Garden Salad'', mprice = 1200,
     mdescription = ''Fresh mixed vegetables''\<rparr>"

definition MENU :: menu where
  "MENU =
     [(''mains'', \<lparr>cat_name = ''Main Dishes'', cat_items =
         [jollof_rice, fried_rice, chicken_shawarma, pounded_yam, suya, beef_burger]\<rparr>),
      (''drinks'', \<lparr>cat_name = ''Beverages'', cat_items =
         [zobo, chapman, water, five_alive, soft_drink]\<rparr>),
      (''sides'', \<lparr>cat_name = ''Side Dishes'', cat_items =
         [plantain, moi_moi, salad]\<rparr>)]"

definition allItems :: "menu \<Rightarrow> menuItem list" where
  "allItems m = concat (map (\<lambda>cat. cat_items (snd cat)) m)"

text \<open>
  \<open>findMenuItem\<close> of server/index.js: the inner loop returns at once on an exact match
  (\<open>Inl\<close>) and otherwise overwrites \<open>bestMatch\<close> at every entry whose lower-cased name
  contains the query or is contained in it (\<open>Inr\<close> carries \<open>bestMatch\<close> to the next category).
\<close>

fun scanItems :: "string \<Rightarrow> menuItem option \<Rightarrow> menuItem list \<Rightarrow> menuItem + menuItem option" where
  "scanItems lowerCaseName bestMatch [] = Inr bestMatch"
| "scanItems lowerCaseName bestMatch (item # rest) =
     (let itemLower = toLowerCase (mname item) in
      if itemLower = lowerCaseName then Inl item
      else scanItems lowerCaseName
             (if str_includes itemLower lowerCaseName \<or> str_includes lowerCaseName itemLower
              then Some item else bestMatch) rest)"

fun scanCategories :: "string \<Rightarrow> menuItem option \<Rightarrow> menu \<Rightarrow> menuItem option" where
  "scanCategories lowerCaseName bestMatch [] = bestMatch"
| "scanCategories lowerCaseName bestMatch (cat # cats) =
     (case scanItems lowerCaseName bestMatch (cat_items (snd cat)) of
        Inl item \<Rightarrow> Some item
      | Inr bestMatch' \<Rightarrow> scanCategories lowerCaseName bestMatch' cats)"

definition findMenuItemIn :: "menu \<Rightarrow> string \<Rightarrow> menuItem option" where
  "findMenuItemIn m name = scanCategories (trim (toLowerCase name)) None m"

definition findMenuItem :: "string \<Rightarrow> menuItem option" where
  "findMenuItem name = findMenuItemIn MENU name"

text \<open>
  \<open>findMenuItem\<close> of the command-line variant (the unnamed index.js): the first entry, in
  catalogue order, whose lower-cased name or id contains the query, or whose name's first
  space-delimited word (\<open>split(' ')[0]\<close>) is contained in the query.  Its menu has eleven
  entries and shorter descriptions for the two rice dishes.
\<close>

definition firstWord :: "string \<Rightarrow> string" where
  "firstWord s = takeWhile (\<lambda>c. c \<noteq> CHR '' '') s"

definition cliMatches :: "string \<Rightarrow> menuItem \<Rightarrow> bool" where
  "cliMatches normalizedName item =
     (str_includes (toLowerCase (mname item)) normalizedName
      \<or> str_includes (toLowerCase (mid item)) normalizedName
      \<or> str_includes normalizedName (firstWord (toLowerCase (mname item))))"

fun cliScanItems :: "string \<Rightarrow> menuItem list \<Rightarrow> menuItem option" where
  "cliScanItems normalizedName [] = None"
| "cliScanItems normalizedName (item # rest) =
     (if cliMatches normalizedName item then Some item else cliScanItems normalizedName rest)"

fun cliScanCategories :: "string \<Rightarrow> menu \<Rightarrow> menuItem option" where
  "cliScanCategories normalizedName [] = None"
| "cliScanCategories normalizedName (cat # cats) =
     (case cliScanItems normalizedName (cat_items (snd cat)) of
        Some item \<Rightarrow> Some item
      | None \<Rightarrow> cliScanCategories normalizedName cats)"

definition cliFindMenuItemIn :: "menu \<Rightarrow> string \<Rightarrow> menuItem option" where
  "cliFindMenuItemIn m itemName = cliScanCategories (trim (toLowerCase itemName)) m"

definition cli_jollof_rice :: menuItem where
  "cli_jollof_rice = jollof_rice\<lparr>mdescription := ''Spicy Nigerian rice with tomatoes and spices''\<rparr>"

definition cli_fried_rice :: menuItem where
  "cli_fried_rice = fried_rice\<lparr>mdescription := ''Mixed vegetables fried rice''\<rparr>"

definition CLI_MENU :: menu where
  "CLI_MENU =
     [(''mains'', \<lparr>cat_name = ''Main Dishes'', cat_items =
         [cli_jollof_rice, cli_fried_rice, pounded_yam, suya]\<rparr>),
      (''drinks'', \<lparr>cat_name = ''Beverages'', cat_items =
         [zobo, chapman, water, soft_drink]\<rparr>),
      (''sides'', \<lparr>cat_name = ''Side Dishes'', cat_items =
         [plantain, moi_moi, salad]\<rparr>)]"

definition cliFindMenuItem :: "string \<Rightarrow> menuItem option" where
  "cliFindMenuItem itemName = cliFindMenuItemIn CLI_MENU itemName"

text \<open>
  The resolution rule in the words of the specification, for comparison with the two
  functions above: the first exact match; failing that the first entry whose name contains
  the query or is contained in it; failing that the first entry whose first
  white-space-delimited token equals the query's.
\<close>

definition firstToken :: "string \<Rightarrow> string" where
  "firstToken s = takeWhile (\<lambda>c. \<not> isSpace c) (dropWhile isSpace s)"

definition resolveSpec :: "menu \<Rightarrow> string \<Rightarrow> menuItem option" where
  "resolveSpec m name =
     (let q = trim (toLowerCase name); its = allItems m in
      case find (\<lambda>item. toLowerCase (mname item) = q) its of
        Some item \<Rightarrow> Some item
      | None \<Rightarrow>
          (case find (\<lambda>item. str_includes (toLowerCase (mname item)) q
                              \<or> str_includes q (toLowerCase (mname item))) its of
             Some item \<Rightarrow> Some item
           | None \<Rightarrow> find (\<lambda>item. firstToken (toLowerCase (mname item)) = firstToken q) its))"

section \<open>Directives in the model's text (server/index.js)\<close>

text \<open>
  The three regular expressions, matched at the head of a string.  \<open>matchLit\<close> is a literal
  under the \<open>i\<close> flag.  \<open>[^|]+\<close> is greedy and must be followed by \<open>|\<close> (or, in
  \<open>ORDER_REMOVE\<close>, by nothing more of the pattern), so it takes every character up to the
  next \<open>|\<close> or the end of the text and giving characters back never helps; \<open>\d+\<close> takes every
  digit that follows.  A matcher returns its capture groups and the text after the match.
\<close>

fun matchLit :: "string \<Rightarrow> string \<Rightarrow> string option" where
  "matchLit [] s = Some s"
| "matchLit (k # ks) [] = None"
| "matchLit (k # ks) (c # cs) = (if toUpperChar c = toUpperChar k then matchLit ks cs else None)"

definition notPipe :: "char \<Rightarrow> bool" where
  "notPipe c = (c \<noteq> CHR ''|'')"

definition matchQuantityDirective :: "string \<Rightarrow> string \<Rightarrow> ((string \<times> string) \<times> string) option" where
  "matchQuantityDirective keyword s =
     (case matchLit keyword s of
        None \<Rightarrow> None
      | Some r1 \<Rightarrow>
          (let itemName = takeWhile notPipe r1 in
           if itemName = [] then None
           else (case matchLit ''|QUANTITY:'' (dropWhile notPipe r1) of
                   None \<Rightarrow> None
                 | Some r2 \<Rightarrow>
                     (let quantityStr = takeWhile isDigit r2 in
                      if quantityStr = [] then None
                      else Some ((itemName, quantityStr), dropWhile isDigit r2)))))"

definition matchAdd :: "string \<Rightarrow> ((string \<times> string) \<times> string) option" where
  "matchAdd = matchQuantityDirective ''ORDER_ADD:''"

definition matchUpdate :: "string \<Rightarrow> ((string \<times> string) \<times> string) option" where
  "matchUpdate = matchQuantityDirective ''ORDER_UPDATE:''"

definition removeKeyword :: string where
  "removeKeyword = ''ORDER_REMOVE:''"

definition matchRemove :: "string \<Rightarrow> (string \<times> string) option" where
  "matchRemove s =
     (case matchLit removeKeyword s of
        None \<Rightarrow> None
      | Some r1 \<Rightarrow>
          (let itemName = takeWhile notPipe r1 in
           if itemName = [] then None else Some (itemName, dropWhile notPipe r1)))"

text \<open>
  The scan of a \<open>g\<close> regular expression over a text.  The counter is the number of
  characters still covered by the last match; at 0 a match is tried at the current
  position, and after a match the scan resumes behind it.  \<open>matchAllFrom\<close> is
  \<open>text.match(re)\<close> (the matched substrings; \<open>null\<close> is the empty list),
  \<open>removeAllFrom\<close> is \<open>text.replace(re, '')\<close>, and \<open>execFirst\<close> is \<open>text.match(re)\<close> for a
  regular expression without \<open>g\<close> (the capture groups of the leftmost match).
\<close>

fun matchAllFrom :: "(string \<Rightarrow> ('c \<times> string) option) \<Rightarrow> nat \<Rightarrow> string \<Rightarrow> string list" where
  "matchAllFrom m k [] = []"
| "matchAllFrom m (Suc k) (c # cs) = matchAllFrom m k cs"
| "matchAllFrom m 0 (c # cs) =
     (case m (c # cs) of
        Some (caps, rest) \<Rightarrow>
          take (Suc (length cs) - length rest) (c # cs) # matchAllFrom m (length cs - length rest) cs
      | None \<Rightarrow> matchAllFrom m 0 cs)"

fun removeAllFrom :: "(string \<Rightarrow> ('c \<times> string) option) \<Rightarrow> nat \<Rightarrow> string \<Rightarrow> string" where
  "removeAllFrom m k [] = []"
| "removeAllFrom m (Suc k) (c # cs) = removeAllFrom m k cs"
| "removeAllFrom m 0 (c # cs) =
     (case m (c # cs) of
        Some (caps, rest) \<Rightarrow> removeAllFrom m (length cs - length rest) cs
      | None \<Rightarrow> c # removeAllFrom m 0 cs)"

fun execFirst :: "(string \<Rightarrow> ('c \<times> string) option) \<Rightarrow> string \<Rightarrow> 'c option" where
  "execFirst m [] = None"
| "execFirst m (c # cs) =
     (case m (c # cs) of Some (caps, rest) \<Rightarrow> Some caps | None \<Rightarrow> execFirst m cs)"

text \<open>
  \<open>noMatchBefore m pre rest\<close>: in the text \<open>pre @ rest\<close> the expression matches at no position
  inside \<open>pre\<close>, so a scan from the start reaches \<open>rest\<close> with nothing matched.
\<close>

fun noMatchBefore :: "(string \<Rightarrow> ('c \<times> string) option) \<Rightarrow> string \<Rightarrow> string \<Rightarrow> bool" where
  "noMatchBefore m [] rest = True"
| "noMatchBefore m (c # cs) rest = (m (c # cs @ rest) = None \<and> noMatchBefore m cs rest)"

text \<open>
  The bodies of the three \<open>forEach\<close> loops of \<open>processOrderInstructions\<close>.  Each matches the
  substring again to read its capture groups; the \<open>None\<close> branch of that second match is
  where JavaScript would fail to destructure \<open>null\<close>; it is never taken, since the
  substring is a match of the same expression (\<open>second_match_never_fails\<close> below).
\<close>

definition processAdd :: "session \<Rightarrow> string \<Rightarrow> session" where
  "processAdd s match =
     (case execFirst matchAdd match of
        Some (itemName, quantityStr) \<Rightarrow>
          (case findMenuItem (trim itemName) of
             Some menuItem \<Rightarrow> addItemToOrder menuItem (parseInt quantityStr) s
           | None \<Rightarrow> s)
      | None \<Rightarrow> s)"

definition processRemove :: "session \<Rightarrow> string \<Rightarrow> session" where
  "processRemove s match =
     (case execFirst matchRemove match of
        Some itemName \<Rightarrow>
          (case findMenuItem (trim itemName) of
             Some menuItem \<Rightarrow> removeItemFromOrder (mid menuItem) s
           | None \<Rightarrow> s)
      | None \<Rightarrow> s)"

definition processUpdate :: "session \<Rightarrow> string \<Rightarrow> session" where
  "processUpdate s match =
     (case execFirst matchUpdate match of
        Some (itemName, quantityStr) \<Rightarrow>
          (case findMenuItem (trim itemName) of
             Some menuItem \<Rightarrow> updateItemInOrder (mid menuItem) (parseInt quantityStr) s
           | None \<Rightarrow> s)
      | None \<Rightarrow> s)"

definition processOrderInstructions :: "string \<Rightarrow> session \<Rightarrow> session" where
  "processOrderInstructions aiResponse s =
     (let s1 = foldl processAdd s (matchAllFrom matchAdd 0 aiResponse);
          s2 = foldl processRemove s1 (matchAllFrom matchRemove 0 aiResponse)
      in foldl processUpdate s2 (matchAllFrom matchUpdate 0 aiResponse))"

text \<open>The text shown to the user: the three \<open>replace\<close> calls of the chat handler, then \<open>trim\<close>.\<close>

definition cleanResponse :: "string \<Rightarrow> string" where
  "cleanResponse aiContent =
     trim (removeAllFrom matchUpdate 0
            (removeAllFrom matchRemove 0
              (removeAllFrom matchAdd 0 aiContent)))"

section \<open>The structured server (server/server.js)\<close>

text \<open>
  The file holds two handlers: \<open>POST /api/chat\<close>, keyed by \<open>userId\<close>, and \<open>POST /chat\<close>,
  keyed by \<open>sessionId\<close>.  Both keep \<open>{order, context}\<close> in Redis and take both fields from
  the JSON object the model returns, so an order here is whatever JSON value the model
  sent.  \<open>JSON.parse\<close> is a parameter of the handlers (\<open>None\<close> is its \<open>SyntaxError\<close>); a JSON
  number is an integer in this model, which only tests it for being zero.  A property that is
  \<open>undefined\<close> is \<open>None\<close>; \<open>JSON.stringify\<close> drops such a property and reading the record
  back gives \<open>undefined\<close> again, so the store holds the session record itself.  Redis is taken
  to answer every command; its connection errors are outside the model.
\<close>

datatype json =
    JNull
  | JBool bool
  | JNum int
  | JStr string
  | JArr "json list"
  | JObj "(string \<times> json) list"

fun jsProp :: "json \<Rightarrow> string \<Rightarrow> json option" where
  "jsProp (JObj kvs) k = map_of kvs k"
| "jsProp j k = None"

fun truthy :: "json \<Rightarrow> bool" where
  "truthy JNull = False"
| "truthy (JBool b) = b"
| "truthy (JNum n) = (n \<noteq> 0)"
| "truthy (JStr s) = (s \<noteq> [])"
| "truthy (JArr xs) = True"
| "truthy (JObj kvs) = True"

record sessionData =
  sd_order :: "json option"
  sd_context :: "json option"

record stored =
  payload :: sessionData
  ttl :: nat

type_synonym store = "string \<rightharpoonup> stored"

definition SESSION_TTL :: nat where
  "SESSION_TTL = 86400"

definition emptyOrder :: json where
  "emptyOrder = JObj [(''items'', JArr []), (''totalCost'', JNum 0), (''status'', JStr ''draft'')]"

definition emptyContext :: json where
  "emptyContext = JObj [(''previouslyMentionedItems'', JArr []), (''pendingConfirmations'', JArr []),
     (''userPreferences'', JObj [(''allergies'', JArr []), (''frequentOrders'', JArr [])])]"

definition freshSession :: sessionData where
  "freshSession = \<lparr>sd_order = Some emptyOrder, sd_context = Some emptyContext\<rparr>"

definition freshEntry :: stored where
  "freshEntry = \<lparr>payload = freshSession, ttl = SESSION_TTL\<rparr>"

text \<open>\<open>!x\<close> for a request field that is a string or absent.\<close>

definition falsy :: "string option \<Rightarrow> bool" where
  "falsy x = (case x of None \<Rightarrow> True | Some s \<Rightarrow> s = [])"

definition idText :: "string option \<Rightarrow> string" where
  "idText x = (case x of None \<Rightarrow> ''undefined'' | Some s \<Rightarrow> s)"

definition userKey :: "string option \<Rightarrow> string" where
  "userKey userId = ''user:'' @ idText userId"

definition sessionKey :: "string \<Rightarrow> string" where
  "sessionKey sessionId = ''session:'' @ sessionId"

definition getUserSession :: "store \<Rightarrow> string option \<Rightarrow> sessionData \<times> store" where
  "getUserSession st userId =
     (case st (userKey userId) of
        None \<Rightarrow> (freshSession, st(userKey userId \<mapsto> freshEntry))
      | Some userSession \<Rightarrow> (payload userSession, st))"

definition updateUserSession :: "store \<Rightarrow> string option \<Rightarrow> sessionData \<Rightarrow> store" where
  "updateUserSession st userId sessionData =
     st(userKey userId \<mapsto> \<lparr>payload = sessionData, ttl = SESSION_TTL\<rparr>)"

datatype error = SessionNotFound

text \<open>\<open>rnd\<close> is the text \<open>Math.random().toString(36).substr(2, 9)\<close> of the call.\<close>

definition getOrCreateSession ::
  "store \<Rightarrow> string \<Rightarrow> string option \<Rightarrow> error + ((string \<times> sessionData) \<times> store)" where
  "getOrCreateSession st rnd sessionId =
     (if falsy sessionId then
        (let newSessionId = ''sess_'' @ rnd
         in Inr ((newSessionId, freshSession), st(sessionKey newSessionId \<mapsto> freshEntry)))
      else (case st (sessionKey (idText sessionId)) of
              None \<Rightarrow> Inl SessionNotFound
            | Some sessionData \<Rightarrow> Inr ((idText sessionId, payload sessionData), st)))"

definition updateSession :: "store \<Rightarrow> string \<Rightarrow> sessionData \<Rightarrow> store" where
  "updateSession st sessionId sessionData =
     st(sessionKey sessionId \<mapsto> \<lparr>payload = sessionData, ttl = SESSION_TTL\<rparr>)"

text \<open>
  The model API is a tape of outcomes, one per call of \<open>generateContent\<close>: the call takes
  the head and leaves the tail, so a handler that called twice would leave a shorter tape.
  The prompt is not modelled; the outcome does not depend on it here.
\<close>

datatype upstream = UpstreamError | Reply string

record world =
  store :: store
  replies :: "upstream list"

definition generateContent :: "upstream list \<Rightarrow> upstream \<times> upstream list" where
  "generateContent tape = (case tape of [] \<Rightarrow> (UpstreamError, []) | r # rs \<Rightarrow> (r, rs))"

record chatRequest =
  message :: string
  history :: "(role \<times> string) list option"
  userId :: "string option"
  sessionId :: "string option"

text \<open>\<open>ChatBody p i\<close> is the body \<open>{...p, sessionId: i}\<close>.\<close>

datatype body = ErrorBody string | ChatBody json string

record httpResponse =
  status :: nat
  body :: body

definition failure :: "nat \<Rightarrow> string \<Rightarrow> httpResponse" where
  "failure code msg = \<lparr>status = code, body = ErrorBody msg\<rparr>"

text \<open>
  \<open>POST /api/chat\<close>.  The session is loaded before the \<open>userId\<close> check; \<open>history.map\<close>
  fails on an absent history, and reading a property of \<open>null\<close> fails too; every failure
  inside the \<open>try\<close> ends in the one \<open>catch\<close>.
\<close>

definition apiChat :: "(string \<Rightarrow> json option) \<Rightarrow> chatRequest \<Rightarrow> world \<Rightarrow> httpResponse \<times> world" where
  "apiChat parse req w =
     (let (userSession, st1) = getUserSession (store w) (userId req) in
      if falsy (userId req) then (failure 400 ''User ID is required'', w\<lparr>store := st1\<rparr>)
      else (case history req of
              None \<Rightarrow> (failure 500 ''Internal server error'', w\<lparr>store := st1\<rparr>)
            | Some h \<Rightarrow>
               (case generateContent (replies w) of
                  (UpstreamError, rs) \<Rightarrow>
                    (failure 500 ''Internal server error'', \<lparr>store = st1, replies = rs\<rparr>)
                | (Reply text, rs) \<Rightarrow>
                    (case parse (trim text) of
                       None \<Rightarrow> (failure 500 ''Internal server error'', \<lparr>store = st1, replies = rs\<rparr>)
                     | Some response \<Rightarrow>
                         if response = JNull
                         then (failure 500 ''Internal server error'', \<lparr>store = st1, replies = rs\<rparr>)
                         else (let newSession = userSession\<lparr>sd_order := jsProp response ''currentOrder'',
                                                           sd_context := jsProp response ''context''\<rparr>
                               in (\<lparr>status = 200, body = ChatBody response (idText (userId req))\<rparr>,
                                   \<lparr>store = updateUserSession st1 (userId req) newSession,
                                    replies = rs\<rparr>))))))"

text \<open>
  \<open>POST /chat\<close>.  \<open>apiKeySet\<close> says whether \<open>GEMINI_API_KEY\<close> is set.  The order and the
  context are overwritten only by a truthy property of the payload.  A failure of
  \<open>JSON.parse\<close> or of the property reads goes to the inner \<open>catch\<close>, every other failure to
  the outer one.
\<close>

definition takeIfTruthy :: "json option \<Rightarrow> json option \<Rightarrow> json option" where
  "takeIfTruthy new old = (case new of Some v \<Rightarrow> if truthy v then Some v else old | None \<Rightarrow> old)"

definition chat ::
  "(string \<Rightarrow> json option) \<Rightarrow> bool \<Rightarrow> string \<Rightarrow> chatRequest \<Rightarrow> world \<Rightarrow> httpResponse \<times> world" where
  "chat parse apiKeySet rnd req w =
     (if \<not> apiKeySet then (failure 500 ''Server misconfiguration: GEMINI_API_KEY not set'', w)
      else (case getOrCreateSession (store w) rnd (sessionId req) of
              Inl e \<Rightarrow> (failure 500 ''An error occurred while processing your request'', w)
            | Inr ((currentSessionId, session), st1) \<Rightarrow>
               (case generateContent (replies w) of
                  (UpstreamError, rs) \<Rightarrow>
                    (failure 500 ''An error occurred while processing your request'',
                     \<lparr>store = st1, replies = rs\<rparr>)
                | (Reply text, rs) \<Rightarrow>
                    (case parse (trim text) of
                       None \<Rightarrow> (failure 500 ''Failed to process AI response'', \<lparr>store = st1, replies = rs\<rparr>)
                     | Some parsedResponse \<Rightarrow>
                         if parsedResponse = JNull
                         then (failure 500 ''Failed to process AI response'', \<lparr>store = st1, replies = rs\<rparr>)
                         else (let session' = session\<lparr>
                                     sd_order := takeIfTruthy (jsProp parsedResponse ''currentOrder'') (sd_order session),
                                     sd_context := takeIfTruthy (jsProp parsedResponse ''context'') (sd_context session)\<rparr>
                               in (\<lparr>status = 200, body = ChatBody parsedResponse currentSessionId\<rparr>,
                                   \<lparr>store = updateSession st1 currentSessionId session',
                                    replies = rs\<rparr>))))))"

section \<open>Concrete inputs\<close>

definition jollofLine :: "int \<Rightarrow> orderLine" where
  "jollofLine q = \<lparr>lid = ''jollof_rice'', lname = ''Jollof Rice'', lprice = 2500, quantity = q\<rparr>"

definition chapmanLine :: "int \<Rightarrow> orderLine" where
  "chapmanLine q = \<lparr>lid = ''chapman'', lname = ''Chapman'', lprice = 1200, quantity = q\<rparr>"

definition twoLineSession :: session where
  "twoLineSession = \<lparr>chatHistory = [],
     currentOrder = \<lparr>items = [jollofLine 2, chapmanLine 1], totalCost = 6200\<rparr>\<rparr>"

definition scenarioText :: string where
  "scenarioText =
     ''Sure! ORDER_ADD:Jollof Rice|QUANTITY:2 Anything else? ORDER_ADD:Chapman|QUANTITY:1''"

text \<open>Inputs of the structured server: two orders a model may send, and a stored session.\<close>

definition orderA :: json where
  "orderA = JObj [(''items'', JArr [JObj [(''id'', JStr ''jollof_rice''), (''name'', JStr ''Jollof Rice''),
                                          (''price'', JNum 2500), (''quantity'', JNum 2)]]),
                  (''totalCost'', JNum 5000), (''status'', JStr ''draft'')]"

definition orderB :: json where
  "orderB = JObj [(''items'', JArr [JObj [(''id'', JStr ''chapman''), (''name'', JStr ''Chapman''),
                                          (''price'', JNum 1200), (''quantity'', JNum 1)]]),
                  (''totalCost'', JNum 1200), (''status'', JStr ''draft'')]"

definition payloadA :: json where
  "payloadA = JObj [(''userIntent'', JStr ''order''), (''response'', JStr ''Two Jollof Rice, noted.''),
                    (''currentOrder'', orderA), (''context'', emptyContext)]"

definition payloadB :: json where
  "payloadB = JObj [(''userIntent'', JStr ''update''), (''response'', JStr ''One Chapman instead.''),
                    (''currentOrder'', orderB), (''context'', emptyContext)]"

definition payloadNullOrder :: json where
  "payloadNullOrder = JObj [(''userIntent'', JStr ''query''), (''response'', JStr ''We open at nine.''),
                            (''currentOrder'', JNull), (''context'', JNull)]"

definition parseTable :: "string \<Rightarrow> json option" where
  "parseTable t = map_of [(''A'', payloadA), (''B'', payloadB), (''N'', payloadNullOrder)] t"

definition sessionA :: sessionData where
  "sessionA = \<lparr>sd_order = Some orderA, sd_context = Some emptyContext\<rparr>"

definition storeA :: store where
  "storeA = [''user:u1'' \<mapsto> \<lparr>payload = sessionA, ttl = SESSION_TTL\<rparr>,
             ''session:s1'' \<mapsto> \<lparr>payload = sessionA, ttl = SESSION_TTL\<rparr>]"

definition requestA :: chatRequest where
  "requestA = \<lparr>message = ''hello'', history = Some [], userId = Some ''u1'', sessionId = Some ''s1''\<rparr>"


text \<open>The removal example of the system prompt, without its keyword.\<close>

definition removeExample :: string where
  "removeExample = ''Fried Rice Alright, Fried Rice has been removed.''"

text \<open>A session whose order holds Fried Rice and Chapman, one of each.\<close>

definition friedRiceLine :: "int \<Rightarrow> orderLine" where
  "friedRiceLine q = \<lparr>lid = ''fried_rice'', lname = ''Fried Rice'', lprice = 2800, quantity = q\<rparr>"

definition friedRiceSession :: session where
  "friedRiceSession = \<lparr>chatHistory = [],
     currentOrder = \<lparr>items = [friedRiceLine 1, chapmanLine 1], totalCost = 4000\<rparr>\<rparr>"

section \<open>Properties of the order mutators\<close>

lemmas str_ev = toLowerCase_def toLowerChar_def toUpperChar_def upperLetters_def lowerLetters_def
  isSpace_def isDigit_def trim_def notPipe_def digitVal_def parseInt_def firstWord_def firstToken_def

lemma find_snoc:
  "find P (xs @ [x]) = (case find P xs of Some y \<Rightarrow> Some y | None \<Rightarrow> if P x then Some x else None)"
  by (induction xs) simp_all

lemma find_app: "find P (xs @ ys) = (case find P xs of Some y \<Rightarrow> Some y | None \<Rightarrow> find P ys)"
  by (induction xs) simp_all

lemma items_setItems: "items (currentOrder (setItems its s)) = its"
  by (simp add: setItems_def)

lemma items_recalc: "items (currentOrder (recalc s)) = items (currentOrder s)"
  by (simp add: recalc_def)

lemma totalConsistent_recalc: "totalConsistent (recalc s)"
  by (simp add: totalConsistent_def recalc_def)

lemma filter_same_length: "length (filter P xs) = length xs \<Longrightarrow> filter P xs = xs"
proof (induction xs)
  case Nil
  then show ?case by simp
next
  case (Cons x xs)
  have le: "length (filter P xs) \<le> length xs" by (rule length_filter_le)
  show ?case
  proof (cases "P x")
    case True
    with Cons show ?thesis by simp
  next
    case False
    with Cons.prems le show ?thesis by simp
  qed
qed

lemma totalConsistent_add: "totalConsistent s \<Longrightarrow> totalConsistent (addItemToOrder m q s)"
  by (simp add: addItemToOrder_def totalConsistent_recalc split: option.split)

lemma totalConsistent_remove:
  assumes "totalConsistent s"
  shows "totalConsistent (removeItemFromOrder i s)"
proof (cases "length (filter (\<lambda>item. lid item = i) (items (currentOrder s))) < length (items (currentOrder s))")
  case True
  then show ?thesis
    by (simp add: removeItemFromOrder_def Let_def items_setItems totalConsistent_recalc)
next
  case False
  have "length (filter (\<lambda>item. lid item = i) (items (currentOrder s))) \<le> length (items (currentOrder s))"
    by (rule length_filter_le)
  with False have "filter (\<lambda>item. lid item = i) (items (currentOrder s)) = items (currentOrder s)"
    by (intro filter_same_length) simp
  with False assms show ?thesis
    by (simp add: removeItemFromOrder_def Let_def items_setItems setItems_def totalConsistent_def)
qed

lemma totalConsistent_update: "totalConsistent s \<Longrightarrow> totalConsistent (updateItemInOrder i q s)"
  by (simp add: updateItemInOrder_def totalConsistent_recalc totalConsistent_remove split: option.split)

lemma totalConsistent_step: "totalConsistent s \<Longrightarrow> totalConsistent (applyMutation s mu)"
  by (cases mu) (simp_all add: totalConsistent_add totalConsistent_remove totalConsistent_update)

lemma totalConsistent_foldl: "totalConsistent s \<Longrightarrow> totalConsistent (foldl applyMutation s ms)"
  by (induction ms arbitrary: s) (simp_all add: totalConsistent_step)

text \<open>
  C1.  Evaluation of \<open>removeItemFromOrder\<close> on the order (Jollof Rice x2, Chapman x1) with the
  id of the first line: the line that was to be deleted is the only one left, the Chapman line
  is gone and the total is that of the Jollof line alone.  With an id that no line carries the
  call empties the order instead of leaving it alone.
\<close>

theorem removeItem_keeps_only_target:
  "currentOrder (removeItemFromOrder ''jollof_rice'' twoLineSession)
     = \<lparr>items = [jollofLine 2], totalCost = 5000\<rparr>
   \<and> currentOrder (removeItemFromOrder ''suya'' twoLineSession)
     = \<lparr>items = [], totalCost = 0\<rparr>"
  by (simp add: removeItemFromOrder_def twoLineSession_def jollofLine_def chapmanLine_def
        setItems_def recalc_def calculateTotal_def Let_def)

text \<open>
  C2.  Evaluation of \<open>updateItemInOrder\<close> on the same order with new quantity 0 for the Jollof
  line: the call goes through \<open>removeItemFromOrder\<close>, so the Jollof line stays and the Chapman
  line is deleted.  A positive quantity is written to the line, and an id that no line carries
  leaves the session as it was.
\<close>

theorem updateQuantity_zero_keeps_target:
  "currentOrder (updateItemInOrder ''jollof_rice'' 0 twoLineSession)
     = \<lparr>items = [jollofLine 2], totalCost = 5000\<rparr>
   \<and> currentOrder (updateItemInOrder ''jollof_rice'' 7 twoLineSession)
     = \<lparr>items = [jollofLine 7, chapmanLine 1], totalCost = 18700\<rparr>
   \<and> updateItemInOrder ''suya'' 0 twoLineSession = twoLineSession"
  by (simp add: updateItemInOrder_def removeItemFromOrder_def twoLineSession_def jollofLine_def
        chapmanLine_def setItems_def recalc_def calculateTotal_def Let_def)

text \<open>
  C3.  After every sequence of \<open>addItemToOrder\<close>, \<open>removeItemFromOrder\<close> and
  \<open>updateItemInOrder\<close> calls run on the fresh session, the stored \<open>totalCost\<close> is the sum of
  price times quantity over the lines the order holds.  The sequence is arbitrary, so the
  statement covers the state after each call of a longer sequence.
\<close>

theorem totalCost_is_sum_after_mutations:
  "totalCost (currentOrder (applyMutations ms createNewSession))
     = calculateTotal (items (currentOrder (applyMutations ms createNewSession)))
   \<and> calculateTotal (items (currentOrder (applyMutations ms createNewSession)))
     = (\<Sum>l\<leftarrow>items (currentOrder (applyMutations ms createNewSession)). lprice l * quantity l)"
proof
  have "totalConsistent createNewSession"
    by (simp add: totalConsistent_def createNewSession_def calculateTotal_def)
  then have "totalConsistent (applyMutations ms createNewSession)"
    unfolding applyMutations_def by (rule totalConsistent_foldl)
  then show "totalCost (currentOrder (applyMutations ms createNewSession))
     = calculateTotal (items (currentOrder (applyMutations ms createNewSession)))"
    by (simp add: totalConsistent_def)
next
  have fold_sum: "foldl (\<lambda>total item. total + lprice item * quantity item) a xs
          = a + (\<Sum>l\<leftarrow>xs. lprice l * quantity l)"
    for a :: int and xs :: "orderLine list"
    by (induction xs arbitrary: a) simp_all
  show "calculateTotal (items (currentOrder (applyMutations ms createNewSession)))
     = (\<Sum>l\<leftarrow>items (currentOrder (applyMutations ms createNewSession)). lprice l * quantity l)"
    unfolding calculateTotal_def by (simp only: fold_sum add_0)
qed

section \<open>Repeated adds\<close>

lemma updateFirst_absent: "find P xs = None \<Longrightarrow> updateFirst P f xs = xs"
  by (induction xs) (auto split: if_splits)











section \<open>Menu resolution\<close>

lemma scanItems_char:
  "scanItems q best its =
     (case find (\<lambda>item. toLowerCase (mname item) = q) its of
        Some item \<Rightarrow> Inl item
      | None \<Rightarrow> Inr (case find (\<lambda>item. str_includes (toLowerCase (mname item)) q
                                   \<or> str_includes q (toLowerCase (mname item))) (rev its) of
                      Some item \<Rightarrow> Some item | None \<Rightarrow> best))"
  by (induction its arbitrary: best) (auto simp: find_snoc Let_def split: option.splits)

lemma scanCategories_char:
  "scanCategories q best m =
     (case find (\<lambda>item. toLowerCase (mname item) = q) (allItems m) of
        Some item \<Rightarrow> Some item
      | None \<Rightarrow> (case find (\<lambda>item. str_includes (toLowerCase (mname item)) q
                                   \<or> str_includes q (toLowerCase (mname item))) (rev (allItems m)) of
                      Some item \<Rightarrow> Some item | None \<Rightarrow> best))"
proof (induction m arbitrary: best)
  case Nil
  then show ?case by (simp add: allItems_def)
next
  case (Cons cat cats)
  have split: "allItems (cat # cats) = cat_items (snd cat) @ allItems cats"
    by (simp add: allItems_def)
  show ?case
    unfolding split
    by (simp add: scanItems_char Cons.IH find_app split: option.splits)
qed

lemma cliScanItems_find: "cliScanItems q its = find (cliMatches q) its"
  by (induction its) simp_all

lemma cliScanCategories_find: "cliScanCategories q m = find (cliMatches q) (allItems m)"
  by (induction m) (simp_all add: allItems_def cliScanItems_find find_app split: option.splits)

text \<open>
  C4, as the code has it.  In server/index.js the first entry (in catalogue order) whose
  lower-cased name equals the trimmed, lower-cased query wins; failing that, the LAST entry
  whose name contains the query or is contained in it; there is no first-token fallback.
  In the command-line variant there is one level only: the first entry whose name or id
  contains the query or whose name's first word is contained in the query.  Either way the
  result is one entry or none, for every menu and every query.
\<close>

theorem findMenuItem_precedence:
  "findMenuItemIn m name =
     (let q = trim (toLowerCase name); its = allItems m in
      case find (\<lambda>item. toLowerCase (mname item) = q) its of
        Some item \<Rightarrow> Some item
      | None \<Rightarrow> find (\<lambda>item. str_includes (toLowerCase (mname item)) q
                              \<or> str_includes q (toLowerCase (mname item))) (rev its))
   \<and> cliFindMenuItemIn m name = find (cliMatches (trim (toLowerCase name))) (allItems m)"
  by (simp add: findMenuItemIn_def cliFindMenuItemIn_def scanCategories_char cliScanCategories_find
        Let_def split: option.splits)

text \<open>
  C4 as stated fails.  On the query \<open>rice\<close> two names contain the query; the rule of the
  claim takes the first (Jollof Rice), \<open>findMenuItem\<close> returns the last (Fried Rice).  On
  \<open>jollof stew\<close> only the first tokens agree; the rule of the claim resolves to Jollof Rice,
  \<open>findMenuItem\<close> to nothing.  In the command-line variant the exact name
  \<open>Fried Plantain\<close> resolves to Fried Rice, whose first word the query contains.
\<close>

theorem menu_resolution_counterexample:
  "findMenuItem ''rice'' = Some fried_rice \<and> resolveSpec MENU ''rice'' = Some jollof_rice
   \<and> findMenuItem ''jollof stew'' = None \<and> resolveSpec MENU ''jollof stew'' = Some jollof_rice
   \<and> cliFindMenuItem ''Fried Plantain'' = Some cli_fried_rice
   \<and> resolveSpec CLI_MENU ''Fried Plantain'' = Some plantain"
  by code_simp

section \<open>The directive scenario\<close>

text \<open>
  C5, as the code has it.  The scenario text run on the fresh session gives the two lines
  Jollof Rice x2 and Chapman x1 (total 6200).  The three \<open>replace\<close> calls leave
  \<open>Sure!  Anything else? \<close> with its trailing space, and the \<open>trim\<close> that follows removes that
  space: the message shown to the user is \<open>Sure!  Anything else?\<close>.
\<close>

theorem scenario_order_and_message:
  "currentOrder (processOrderInstructions scenarioText createNewSession)
     = \<lparr>items = [jollofLine 2, chapmanLine 1], totalCost = 6200\<rparr>
   \<and> removeAllFrom matchUpdate 0 (removeAllFrom matchRemove 0 (removeAllFrom matchAdd 0 scenarioText))
     = ''Sure!  Anything else? ''
   \<and> cleanResponse scenarioText = ''Sure!  Anything else?''"
  by code_simp

text \<open>C5 as stated fails: the visible message is not the text with the trailing space.\<close>

theorem scenario_message_counterexample:
  "cleanResponse scenarioText \<noteq> ''Sure!  Anything else? ''"
  by code_simp

section \<open>Sessions and turns of the structured server\<close>

lemma getUserSession_persisted:
  "getUserSession (snd (getUserSession st uid)) uid = getUserSession st uid"
  by (auto simp: getUserSession_def freshEntry_def split: option.splits)

text \<open>
  C6, as the code has it.  \<open>getUserSession\<close> returns the stored session when the key is
  present and leaves the store alone; on a miss it returns the fresh session (empty draft
  order, empty context; this variant keeps no history in the session) and stores it, so that
  a second call returns the same session; it has no failing branch of its own.
  \<open>getOrCreateSession\<close> creates and stores a fresh session only when no session id is
  supplied; with a supplied id it returns the stored session, and when the store has none
  under that id it raises \<open>Session not found\<close> and stores nothing.  The get and the set are
  two Redis commands; nothing is said about atomicity.
\<close>

theorem session_get_contract:
  "(case st (userKey uid) of
      Some e \<Rightarrow> getUserSession st uid = (payload e, st)
    | None \<Rightarrow> getUserSession st uid = (freshSession, st(userKey uid \<mapsto> freshEntry)))
   \<and> getUserSession (snd (getUserSession st uid)) uid = getUserSession st uid
   \<and> (falsy sid \<longrightarrow>
        getOrCreateSession st rnd sid
          = Inr ((''sess_'' @ rnd, freshSession), st(sessionKey (''sess_'' @ rnd) \<mapsto> freshEntry)))
   \<and> (\<not> falsy sid \<longrightarrow>
        (case st (sessionKey (idText sid)) of
           Some e \<Rightarrow> getOrCreateSession st rnd sid = Inr ((idText sid, payload e), st)
         | None \<Rightarrow> getOrCreateSession st rnd sid = Inl SessionNotFound))"
proof (intro conjI)
  show "case st (userKey uid) of
      Some e \<Rightarrow> getUserSession st uid = (payload e, st)
    | None \<Rightarrow> getUserSession st uid = (freshSession, st(userKey uid \<mapsto> freshEntry))"
    by (simp add: getUserSession_def split: option.splits)
  show "getUserSession (snd (getUserSession st uid)) uid = getUserSession st uid"
    by (rule getUserSession_persisted)
  show "falsy sid \<longrightarrow>
        getOrCreateSession st rnd sid
          = Inr ((''sess_'' @ rnd, freshSession), st(sessionKey (''sess_'' @ rnd) \<mapsto> freshEntry))"
    by (simp add: getOrCreateSession_def Let_def)
  show "\<not> falsy sid \<longrightarrow>
        (case st (sessionKey (idText sid)) of
           Some e \<Rightarrow> getOrCreateSession st rnd sid = Inr ((idText sid, payload e), st)
         | None \<Rightarrow> getOrCreateSession st rnd sid = Inl SessionNotFound)"
    by (simp add: getOrCreateSession_def split: option.splits)
qed

text \<open>
  Instances: a miss and a hit of \<open>getUserSession\<close>, and the three cases of
  \<open>getOrCreateSession\<close>.
\<close>

theorem session_get_contract_witness:
  "getUserSession Map.empty (Some ''u1'') = (freshSession, [''user:u1'' \<mapsto> freshEntry])
   \<and> getUserSession storeA (Some ''u1'') = (sessionA, storeA)
   \<and> getOrCreateSession Map.empty ''k3x9'' None
        = Inr ((''sess_k3x9'', freshSession), [''session:sess_k3x9'' \<mapsto> freshEntry])
   \<and> getOrCreateSession storeA ''k3x9'' (Some ''s1'') = Inr ((''s1'', sessionA), storeA)
   \<and> getOrCreateSession Map.empty ''k3x9'' (Some ''s1'') = Inl SessionNotFound"
proof -
  have e: "(Map.empty :: store) k = None" for k by simp
  have a: "storeA (userKey (Some ''u1'')) = Some \<lparr>payload = sessionA, ttl = SESSION_TTL\<rparr>"
    by (simp add: storeA_def userKey_def idText_def)
  have b: "storeA (sessionKey (idText (Some ''s1''))) = Some \<lparr>payload = sessionA, ttl = SESSION_TTL\<rparr>"
    by (simp add: storeA_def sessionKey_def idText_def)
  have f1: "falsy None" and f2: "\<not> falsy (Some ''s1'')" by (simp_all add: falsy_def)
  from session_get_contract [of Map.empty "Some ''u1''" None "''k3x9''"] f1
  have 1: "getUserSession Map.empty (Some ''u1'') = (freshSession, [''user:u1'' \<mapsto> freshEntry])"
    and 3: "getOrCreateSession Map.empty ''k3x9'' None
        = Inr ((''sess_k3x9'', freshSession), [''session:sess_k3x9'' \<mapsto> freshEntry])"
    by (simp_all add: userKey_def idText_def sessionKey_def)
  from session_get_contract [of storeA "Some ''u1''" "Some ''s1''" "''k3x9''"] f2 a b
  have 2: "getUserSession storeA (Some ''u1'') = (sessionA, storeA)"
    and 4: "getOrCreateSession storeA ''k3x9'' (Some ''s1'') = Inr ((''s1'', sessionA), storeA)"
    by (simp_all add: idText_def)
  from session_get_contract [of Map.empty "Some ''u1''" "Some ''s1''" "''k3x9''"] f2
  have 5: "getOrCreateSession Map.empty ''k3x9'' (Some ''s1'') = Inl SessionNotFound"
    by simp
  from 1 2 3 4 5 show ?thesis by (simp only: simp_thms)
qed

text \<open>
  C6 as stated fails: \<open>getOrCreateSession\<close> on a session id that the store does not hold
  returns the error, not a fresh session.
\<close>

theorem session_get_counterexample:
  "getOrCreateSession Map.empty ''k3x9'' (Some ''s1'') = Inl SessionNotFound"
  by (simp add: getOrCreateSession_def falsy_def)


lemma apiChat_malformed:
  assumes "replies w = Reply raw # rest" and "parse (trim raw) = None"
      and "\<not> falsy (userId req)" and "history req = Some h"
  shows "apiChat parse req w
           = (failure 500 ''Internal server error'',
              \<lparr>store = snd (getUserSession (store w) (userId req)), replies = rest\<rparr>)"
  using assms by (simp add: apiChat_def generateContent_def split: prod.splits)

lemma chat_malformed:
  assumes "replies w = Reply raw # rest" and "parse (trim raw) = None"
      and "apiKeySet" and "getOrCreateSession (store w) rnd (sessionId req) = Inr ((sid, s), st1)"
  shows "chat parse apiKeySet rnd req w
           = (failure 500 ''Failed to process AI response'', \<lparr>store = st1, replies = rest\<rparr>)"
  using assms by (simp add: chat_def generateContent_def)

lemma getUserSession_hit: "st (userKey uid) = Some e \<Longrightarrow> snd (getUserSession st uid) = st"
  by (simp add: getUserSession_def)

lemma getOrCreateSession_hit:
  "\<not> falsy sid \<Longrightarrow> getOrCreateSession st rnd sid = Inr (r, st1) \<Longrightarrow> st1 = st"
  by (auto simp: getOrCreateSession_def split: option.splits)

text \<open>
  C7.  The model is called once and its text does not parse.  \<open>POST /api/chat\<close> (with a user
  id and a history, which the handler needs to reach the model) answers 500, has consumed
  exactly that one reply, and leaves the store as the session load left it: unchanged when
  the session was stored, and holding the fresh session that the load itself persisted
  otherwise.  \<open>POST /chat\<close> (with the key configured and the session load successful)
  answers 500 with \<open>Failed to process AI response\<close>, has consumed exactly that one reply,
  and leaves the store as the session load left it, which is the store before the turn
  whenever a session id was supplied.  Nothing of the reply reaches the store.
\<close>

theorem malformed_json_is_hard_error:
  assumes "replies w = Reply raw # rest" and "parse (trim raw) = None"
  shows "(\<not> falsy (userId req) \<and> history req \<noteq> None \<longrightarrow>
            fst (apiChat parse req w) = failure 500 ''Internal server error''
          \<and> status (fst (apiChat parse req w)) = 500
          \<and> replies (snd (apiChat parse req w)) = rest
          \<and> store (snd (apiChat parse req w)) = snd (getUserSession (store w) (userId req))
          \<and> (store w (userKey (userId req)) \<noteq> None \<longrightarrow> store (snd (apiChat parse req w)) = store w))
       \<and> (apiKeySet \<and> getOrCreateSession (store w) rnd (sessionId req) = Inr ((sid, s), stLoaded) \<longrightarrow>
            fst (chat parse apiKeySet rnd req w) = failure 500 ''Failed to process AI response''
          \<and> status (fst (chat parse apiKeySet rnd req w)) = 500
          \<and> replies (snd (chat parse apiKeySet rnd req w)) = rest
          \<and> store (snd (chat parse apiKeySet rnd req w)) = stLoaded
          \<and> (\<not> falsy (sessionId req) \<longrightarrow> store (snd (chat parse apiKeySet rnd req w)) = store w))"
proof (intro conjI impI)
  assume a: "\<not> falsy (userId req) \<and> history req \<noteq> None"
  then obtain h where h: "history req = Some h" by auto
  from a have nf: "\<not> falsy (userId req)" by simp
  have r: "apiChat parse req w
           = (failure 500 ''Internal server error'',
              \<lparr>store = snd (getUserSession (store w) (userId req)), replies = rest\<rparr>)"
    using assms nf h by (rule apiChat_malformed)
  show "fst (apiChat parse req w) = failure 500 ''Internal server error''" by (simp add: r)
  show "status (fst (apiChat parse req w)) = 500" by (simp add: r failure_def)
  show "replies (snd (apiChat parse req w)) = rest" by (simp add: r)
  show "store (snd (apiChat parse req w)) = snd (getUserSession (store w) (userId req))" by (simp add: r)
  assume "store w (userKey (userId req)) \<noteq> None"
  then show "store (snd (apiChat parse req w)) = store w"
    by (auto simp: r getUserSession_hit)
next
  assume b: "apiKeySet \<and> getOrCreateSession (store w) rnd (sessionId req) = Inr ((sid, s), stLoaded)"
  from b have k: "apiKeySet"
    and g: "getOrCreateSession (store w) rnd (sessionId req) = Inr ((sid, s), stLoaded)" by simp_all
  have r: "chat parse apiKeySet rnd req w
           = (failure 500 ''Failed to process AI response'', \<lparr>store = stLoaded, replies = rest\<rparr>)"
    using assms k g by (rule chat_malformed)
  show "fst (chat parse apiKeySet rnd req w) = failure 500 ''Failed to process AI response''" by (simp add: r)
  show "status (fst (chat parse apiKeySet rnd req w)) = 500" by (simp add: r failure_def)
  show "replies (snd (chat parse apiKeySet rnd req w)) = rest" by (simp add: r)
  show "store (snd (chat parse apiKeySet rnd req w)) = stLoaded" by (simp add: r)
  assume "\<not> falsy (sessionId req)"
  from getOrCreateSession_hit [OF this g]
  show "store (snd (chat parse apiKeySet rnd req w)) = store w" by (simp add: r)
qed

text \<open>
  Instance: the stored session of user \<open>u1\<close> / session \<open>s1\<close>, the reply \<open>not json\<close> followed
  by a second reply on the tape.  Both handlers answer 500, leave the store as it was and
  leave the second reply unread.
\<close>

theorem malformed_json_is_hard_error_witness:
  "status (fst (apiChat parseTable requestA \<lparr>store = storeA, replies = [Reply ''not json'', Reply ''A'']\<rparr>)) = 500
   \<and> snd (apiChat parseTable requestA \<lparr>store = storeA, replies = [Reply ''not json'', Reply ''A'']\<rparr>)
       = \<lparr>store = storeA, replies = [Reply ''A'']\<rparr>
   \<and> status (fst (chat parseTable True ''k3x9'' requestA \<lparr>store = storeA, replies = [Reply ''not json'', Reply ''A'']\<rparr>)) = 500
   \<and> snd (chat parseTable True ''k3x9'' requestA \<lparr>store = storeA, replies = [Reply ''not json'', Reply ''A'']\<rparr>)
       = \<lparr>store = storeA, replies = [Reply ''A'']\<rparr>"
proof -
  let ?w = "\<lparr>store = storeA, replies = [Reply ''not json'', Reply ''A'']\<rparr>"
  have h1: "replies ?w = Reply ''not json'' # [Reply ''A'']" by simp
  have h2: "parseTable (trim ''not json'') = None" by (simp add: parseTable_def str_ev)
  have h3: "\<not> falsy (userId requestA) \<and> history requestA \<noteq> None"
    by (simp add: requestA_def falsy_def)
  have h4: "True \<and> getOrCreateSession (store ?w) ''k3x9'' (sessionId requestA) = Inr ((''s1'', sessionA), storeA)"
    by (simp add: getOrCreateSession_def requestA_def falsy_def idText_def sessionKey_def storeA_def)
  have h5: "store ?w (userKey (userId requestA)) \<noteq> None"
    by (simp add: requestA_def userKey_def idText_def storeA_def)
  have h6: "\<not> falsy (sessionId requestA)" by (simp add: requestA_def falsy_def)
  note t = malformed_json_is_hard_error [where parse = parseTable and w = "?w" and raw = "''not json''"
      and rest = "[Reply ''A'']" and req = requestA and apiKeySet = True and rnd = "''k3x9''"
      and sid = "''s1''" and s = sessionA and stLoaded = storeA, OF h1 h2]
  from t h3 h5 have a: "status (fst (apiChat parseTable requestA ?w)) = 500"
    and b: "replies (snd (apiChat parseTable requestA ?w)) = [Reply ''A'']"
    and c: "store (snd (apiChat parseTable requestA ?w)) = store ?w" by blast+
  from t h4 h6 have d: "status (fst (chat parseTable True ''k3x9'' requestA ?w)) = 500"
    and e: "replies (snd (chat parseTable True ''k3x9'' requestA ?w)) = [Reply ''A'']"
    and f: "store (snd (chat parseTable True ''k3x9'' requestA ?w)) = store ?w" by blast+
  have eq: "x = \<lparr>store = store x, replies = replies x\<rparr>" for x :: world by simp
  show ?thesis
    using a d eq [of "snd (apiChat parseTable requestA ?w)"] eq [of "snd (chat parseTable True ''k3x9'' requestA ?w)"]
    by (simp add: b c e f)
qed








section \<open>Literals and keywords under the \<open>i\<close> flag\<close>

lemma matchLit_char:
  "matchLit k s =
     (if length k \<le> length s \<and> map toUpperChar (take (length k) s) = map toUpperChar k
      then Some (drop (length k) s) else None)"
proof (induction k s rule: matchLit.induct)
  case (1 s)
  then show ?case by simp
next
  case (2 k ks)
  then show ?case by simp
next
  case (3 k ks c cs)
  then show ?case by (cases "toUpperChar c = toUpperChar k") simp_all
qed

lemma matchLit_append:
  "length k \<le> length y \<Longrightarrow> matchLit k (y @ p) = map_option (\<lambda>z. z @ p) (matchLit k y)"
  by (simp add: matchLit_char)

lemma matchLit_exact:
  assumes "matchLit k s = Some []"
  shows "length s = length k" and "map toUpperChar s = map toUpperChar k"
proof -
  from assms have a: "length k \<le> length s" and b: "map toUpperChar (take (length k) s) = map toUpperChar k"
    and c: "drop (length k) s = []"
    by (simp_all add: matchLit_char split: if_splits)
  from a c show l: "length s = length k" by simp
  with b show "map toUpperChar s = map toUpperChar k" by simp
qed

lemma toUpperChar_cases: "toUpperChar c = c \<or> toUpperChar c \<in> set upperLetters"
proof (cases "map_of (zip lowerLetters upperLetters) c")
  case None
  then show ?thesis by (simp add: toUpperChar_def)
next
  case (Some u)
  then have "(c, u) \<in> set (zip lowerLetters upperLetters)" by (rule map_of_SomeD)
  then have "u \<in> set upperLetters" by (rule set_zip_rightD)
  with Some show ?thesis by (simp add: toUpperChar_def)
qed

lemma pipe_not_upper: "CHR ''|'' \<notin> set upperLetters"
  by (simp add: upperLetters_def)

lemma toUpperChar_pipe: "toUpperChar c = CHR ''|'' \<Longrightarrow> c = CHR ''|''"
  using toUpperChar_cases [of c] pipe_not_upper by auto


lemma toUpperChar_pipe_self: "toUpperChar (CHR ''|'') = CHR ''|''"
  by (simp add: toUpperChar_def upperLetters_def lowerLetters_def)

lemma toUpperChar_not_lower: "c \<notin> set lowerLetters \<Longrightarrow> toUpperChar c = c"
proof -
  assume a: "c \<notin> set lowerLetters"
  have "map fst (zip lowerLetters upperLetters) = lowerLetters"
    by (simp add: upperLetters_def lowerLetters_def)
  then have "fst ` set (zip lowerLetters upperLetters) = set lowerLetters"
    by (metis set_map)
  with a have "map_of (zip lowerLetters upperLetters) c = None"
    by (simp add: map_of_eq_None_iff)
  then show ?thesis by (simp add: toUpperChar_def)
qed

lemma digit_not_lower: "isDigit c \<Longrightarrow> c \<notin> set lowerLetters"
  by (auto simp: isDigit_def lowerLetters_def)

lemma removeKeyword_upper: "map toUpperChar removeKeyword = ''ORDER_REMOVE:''"
  by (simp add: removeKeyword_def toUpperChar_def upperLetters_def lowerLetters_def)

lemma removeKeyword_length: "length removeKeyword = 13"
  by (simp add: removeKeyword_def)

lemma keyword_length: "matchLit removeKeyword kw = Some [] \<Longrightarrow> length kw = 13"
  by (simp add: matchLit_exact(1) removeKeyword_length)

lemma keyword_upper: "matchLit removeKeyword kw = Some [] \<Longrightarrow> map toUpperChar kw = ''ORDER_REMOVE:''"
  by (simp add: matchLit_exact(2) removeKeyword_upper)

lemma keyword_notPipe:
  assumes "matchLit removeKeyword kw = Some []"
  shows "list_all notPipe kw"
proof -
  have "c \<noteq> CHR ''|''" if "c \<in> set kw" for c
  proof
    assume "c = CHR ''|''"
    with that have "toUpperChar (CHR ''|'') \<in> toUpperChar ` set kw" by blast
    then have "CHR ''|'' \<in> set (map toUpperChar kw)" by (simp add: toUpperChar_pipe_self)
    then show False by (simp add: keyword_upper [OF assms])
  qed
  then show ?thesis by (simp add: list_all_iff notPipe_def)
qed

lemma keyword_head:
  assumes "matchLit removeKeyword kw = Some []"
  shows "kw \<noteq> []" and "toUpperChar (hd kw) = CHR ''O''" and "\<not> isDigit (hd kw)"
proof -
  from keyword_length [OF assms] show ne: "kw \<noteq> []" by auto
  then obtain c cs where kw: "kw = c # cs" by (cases kw) auto
  with keyword_upper [OF assms] show up: "toUpperChar (hd kw) = CHR ''O''" by simp
  show "\<not> isDigit (hd kw)"
  proof
    assume d: "isDigit (hd kw)"
    then have "toUpperChar (hd kw) = hd kw"
      by (simp add: toUpperChar_not_lower digit_not_lower)
    with up have "isDigit (CHR ''O'')" using d by simp
    then show False by (simp add: isDigit_def)
  qed
qed

lemma while_append_stop:
  assumes "v \<noteq> []" and "\<not> P (hd v)"
  shows "takeWhile P (r @ v) = takeWhile P r" and "dropWhile P (r @ v) = dropWhile P r @ v"
proof -
  from assms have "takeWhile P v = []" and "dropWhile P v = v"
    by (simp_all add: takeWhile_eq_Nil_iff dropWhile_eq_self_iff)
  then show "takeWhile P (r @ v) = takeWhile P r" and "dropWhile P (r @ v) = dropWhile P r @ v"
    by (induction r) simp_all
qed

lemma while_append_all:
  assumes "list_all P r" and "list_all P v"
  shows "takeWhile P (r @ v) = r @ v" and "dropWhile P (r @ v) = []"
  using assms by (simp_all add: list_all_iff)

lemma while_append_inside:
  assumes "\<not> list_all P r"
  shows "takeWhile P (r @ v) = takeWhile P r" and "dropWhile P (r @ v) = dropWhile P r @ v"
    and "dropWhile P r \<noteq> []"
proof -
  from assms obtain x where "x \<in> set r" "\<not> P x" by (auto simp: list_all_iff)
  then show "takeWhile P (r @ v) = takeWhile P r" and "dropWhile P (r @ v) = dropWhile P r @ v"
    and "dropWhile P r \<noteq> []"
    by auto
qed

lemma matchLit_rest: "matchLit k s = Some r \<Longrightarrow> r = drop (length k) s \<and> length k \<le> length s"
  by (simp add: matchLit_char split: if_splits)

lemma list_all_drop: "list_all P xs \<Longrightarrow> list_all P (drop n xs)"
  by (auto simp: list_all_iff dest: in_set_dropD)

lemma quantityTail_pipefree:
  assumes "list_all notPipe r"
  shows "(let itemName = takeWhile notPipe r in
           if itemName = [] then None
           else (case matchLit ''|QUANTITY:'' (dropWhile notPipe r) of
                   None \<Rightarrow> None
                 | Some r2 \<Rightarrow>
                     (let quantityStr = takeWhile isDigit r2 in
                      if quantityStr = [] then None
                      else Some ((itemName, quantityStr), dropWhile isDigit r2)))) = None"
proof -
  from assms have dw: "dropWhile notPipe r = []" by (simp add: list_all_iff)
  have lit: "matchLit ''|QUANTITY:'' [] = None" by simp
  show ?thesis unfolding Let_def dw lit by simp
qed

lemma matchQD_pipefree:
  assumes "list_all notPipe s"
  shows "matchQuantityDirective K s = None"
proof (cases "matchLit K s")
  case None
  then show ?thesis by (simp add: matchQuantityDirective_def)
next
  case (Some r)
  then have "r = drop (length K) s" by (simp add: matchLit_rest)
  with assms have "list_all notPipe r" by (simp add: list_all_drop)
  from quantityTail_pipefree [OF this] Some show ?thesis
    by (simp add: matchQuantityDirective_def)
qed

lemma matchLit_span:
  "matchLit ks (d @ v) = Some r \<Longrightarrow> length d < length ks \<Longrightarrow> v \<noteq> [] \<Longrightarrow>
     toUpperChar (hd v) \<in> set (map toUpperChar (drop (length d) ks))"
proof (induction ks arbitrary: d)
  case Nil
  then show ?case by simp
next
  case (Cons k ks)
  show ?case
  proof (cases d)
    case Nil
    from Cons.prems(3) obtain c cs where v: "v = c # cs" by (cases v) auto
    with Cons.prems(1) Nil have "toUpperChar c = toUpperChar k" by (simp split: if_splits)
    with v Nil show ?thesis by simp
  next
    case (Cons c d')
    with Cons.prems(1) have m: "matchLit ks (d' @ v) = Some r" by (simp split: if_splits)
    from Cons Cons.prems(2) have "length d' < length ks" by simp
    from Cons.IH [OF m this Cons.prems(3)] Cons show ?thesis by simp
  qed
qed

lemma quantityLit_upper: "map toUpperChar ''QUANTITY:'' = ''QUANTITY:''"
  by (simp add: toUpperChar_def upperLetters_def lowerLetters_def)

lemma quantityLit_span_fail:
  assumes "d \<noteq> []" and "length d < 10" and "v \<noteq> []"
      and "toUpperChar (hd v) \<notin> set ''QUANTITY:''"
  shows "matchLit ''|QUANTITY:'' (d @ v) = None"
proof (cases "matchLit ''|QUANTITY:'' (d @ v)")
  case None
  then show ?thesis .
next
  case (Some r)
  from assms(2) have "length d < length ''|QUANTITY:''" by simp
  from matchLit_span [OF Some this assms(3)]
  have "toUpperChar (hd v) \<in> set (map toUpperChar (drop (length d) ''|QUANTITY:''))" .
  moreover from assms(1) obtain n where "length d = Suc n" by (cases d) auto
  ultimately have "toUpperChar (hd v) \<in> set (map toUpperChar (drop n ''QUANTITY:''))" by simp
  then have "toUpperChar (hd v) \<in> set (drop n (map toUpperChar ''QUANTITY:''))"
    by (simp only: drop_map)
  then have "toUpperChar (hd v) \<in> set ''QUANTITY:''"
    unfolding quantityLit_upper by (rule in_set_dropD)
  with assms(4) show ?thesis by simp
qed

lemma quantityLit_append:
  assumes "d \<noteq> []" and "v \<noteq> []" and "toUpperChar (hd v) \<notin> set ''QUANTITY:''"
  shows "matchLit ''|QUANTITY:'' (d @ v) = map_option (\<lambda>z. z @ v) (matchLit ''|QUANTITY:'' d)"
proof (cases "length d < 10")
  case True
  then have "matchLit ''|QUANTITY:'' d = None" by (simp add: matchLit_char)
  with quantityLit_span_fail [OF assms(1) True assms(2,3)] show ?thesis by simp
next
  case False
  then have "length ''|QUANTITY:'' \<le> length d" by simp
  then show ?thesis by (rule matchLit_append)
qed

lemma matchQD_append:
  assumes "v \<noteq> []" and "list_all notPipe v" and "\<not> isDigit (hd v)"
      and "toUpperChar (hd v) \<notin> set ''QUANTITY:''"
  shows "matchQuantityDirective K (u @ v)
           = map_option (\<lambda>(caps, rest). (caps, rest @ v)) (matchQuantityDirective K u)"
proof (cases "length K \<le> length u")
  case False
  then have n: "matchLit K u = None" by (simp add: matchLit_char)
  have "matchQuantityDirective K (u @ v) = None"
  proof (cases "matchLit K (u @ v)")
    case None
    then show ?thesis by (simp add: matchQuantityDirective_def)
  next
    case (Some r)
    from matchLit_rest [OF Some] have "r = drop (length K) (u @ v)" by (rule conjunct1)
    with False have "r = drop (length K - length u) v" by simp
    with assms(2) have "list_all notPipe r" by (simp add: list_all_drop)
    from quantityTail_pipefree [OF this] Some show ?thesis
      by (simp add: matchQuantityDirective_def)
  qed
  with n show ?thesis by (simp add: matchQuantityDirective_def)
next
  case True
  note lit = matchLit_append [OF True, of v]
  show ?thesis
  proof (cases "matchLit K u")
    case None
    with lit show ?thesis by (simp add: matchQuantityDirective_def)
  next
    case (Some r1)
    with lit have l2: "matchLit K (u @ v) = Some (r1 @ v)" by simp
    show ?thesis
    proof (cases "list_all notPipe r1")
      case pf: True
      with assms(2) have "list_all notPipe (r1 @ v)" by simp
      from quantityTail_pipefree [OF this] quantityTail_pipefree [OF pf] l2 Some
      show ?thesis by (simp add: matchQuantityDirective_def)
    next
      case npf: False
      note w = while_append_inside(1,2) [OF npf, of v] while_append_inside(3) [OF npf]
      have dl: "matchLit ''|QUANTITY:'' (dropWhile notPipe r1 @ v)
                  = map_option (\<lambda>z. z @ v) (matchLit ''|QUANTITY:'' (dropWhile notPipe r1))"
        using w(3) assms(1) assms(4) by (rule quantityLit_append)
      show ?thesis
      proof (cases "takeWhile notPipe r1 = []")
        case True
        then show ?thesis
          by (simp add: matchQuantityDirective_def Let_def l2 Some w(1))
      next
        case name: False
        show ?thesis
        proof (cases "matchLit ''|QUANTITY:'' (dropWhile notPipe r1)")
          case None
          with dl have "matchLit ''|QUANTITY:'' (dropWhile notPipe r1 @ v) = None" by simp
          with None name show ?thesis
            by (simp add: matchQuantityDirective_def Let_def l2 Some w(1,2))
        next
          case q: (Some r2)
          note d = while_append_stop [where P = isDigit and v = v and r = r2, OF assms(1) assms(3)]
          from q dl have q2: "matchLit ''|QUANTITY:'' (dropWhile notPipe r1 @ v) = Some (r2 @ v)"
            by simp
          show ?thesis
          proof (cases "takeWhile isDigit r2 = []")
            case True
            with name show ?thesis
              by (simp add: matchQuantityDirective_def Let_def l2 Some w(1,2) q q2 d)
          next
            case False
            with name show ?thesis
              by (simp add: matchQuantityDirective_def Let_def l2 Some w(1,2) q q2 d)
          qed
        qed
      qed
    qed
  qed
qed

lemma removeAllFrom_over: "length xs \<le> k \<Longrightarrow> removeAllFrom m k xs = []"
proof (induction xs arbitrary: k)
  case Nil
  then show ?case by simp
next
  case (Cons c cs)
  then obtain j where "k = Suc j" by (cases k) auto
  with Cons show ?case by simp
qed

lemma removeAll_QD_pipefree:
  "list_all notPipe s \<Longrightarrow> removeAllFrom (matchQuantityDirective K) 0 s = s"
proof (induction s)
  case Nil
  then show ?case by simp
next
  case (Cons c cs)
  from Cons.prems have "matchQuantityDirective K (c # cs) = None" by (rule matchQD_pipefree)
  moreover from Cons.prems have "list_all notPipe cs" by simp
  ultimately show ?case using Cons.IH by simp
qed

lemma removeAll_QD_append:
  assumes "v \<noteq> []" and "list_all notPipe v" and "\<not> isDigit (hd v)"
      and "toUpperChar (hd v) \<notin> set ''QUANTITY:''"
  shows "k \<le> length u \<Longrightarrow>
           removeAllFrom (matchQuantityDirective K) k (u @ v)
             = removeAllFrom (matchQuantityDirective K) k u @ v"
proof (induction u arbitrary: k)
  case Nil
  then show ?case by (simp add: removeAll_QD_pipefree [OF assms(2)])
next
  case (Cons c u)
  show ?case
  proof (cases k)
    case (Suc j)
    with Cons.prems have "j \<le> length u" by simp
    with Suc Cons.IH show ?thesis by simp
  next
    case 0
    have m: "matchQuantityDirective K (c # u @ v)
               = map_option (\<lambda>(caps, rest). (caps, rest @ v)) (matchQuantityDirective K (c # u))"
      using matchQD_append [OF assms, of K "c # u"] by simp
    show ?thesis
    proof (cases "matchQuantityDirective K (c # u)")
      case None
      with m 0 Cons.IH [of 0] show ?thesis by simp
    next
      case (Some a)
      obtain caps rest where a: "a = (caps, rest)" by (cases a)
      have "length u - length rest \<le> length u" by simp
      from Cons.IH [OF this] m Some a 0 show ?thesis by simp
    qed
  qed
qed

section \<open>The scan around an \<open>ORDER_REMOVE\<close> directive\<close>

lemma matchRemove_flat:
  "matchRemove s =
     (case matchLit removeKeyword s of
        None \<Rightarrow> None
      | Some r1 \<Rightarrow> if takeWhile notPipe r1 = [] then None
                   else Some (takeWhile notPipe r1, dropWhile notPipe r1))"
  by (simp add: matchRemove_def Let_def split: option.split)

lemma matchRemove_keyword:
  assumes "matchLit removeKeyword kw = Some []" and "prose \<noteq> []" and "list_all notPipe prose"
      and "tail = [] \<or> hd tail = CHR ''|''"
  shows "matchRemove (kw @ prose @ tail) = Some (prose, tail)"
proof -
  have "length removeKeyword \<le> length kw"
    by (simp add: keyword_length [OF assms(1)] removeKeyword_length)
  from matchLit_append [OF this, of "prose @ tail"] assms(1)
  have lit: "matchLit removeKeyword (kw @ prose @ tail) = Some (prose @ tail)" by simp
  from assms(4) have stop: "takeWhile notPipe tail = []" "dropWhile notPipe tail = tail"
    by (auto simp: takeWhile_eq_Nil_iff dropWhile_eq_self_iff notPipe_def)
  from assms(3) have "\<forall>x\<in>set prose. notPipe x" by (simp add: list_all_iff)
  then have "takeWhile notPipe (prose @ tail) = prose" "dropWhile notPipe (prose @ tail) = tail"
    by (simp_all add: stop)
  with lit assms(2) show ?thesis by (simp add: matchRemove_flat)
qed

lemma matchRemove_before_keyword:
  assumes "matchLit removeKeyword kw = Some []" and "x \<noteq> []"
  shows "(\<forall>p. list_all notPipe p \<longrightarrow> matchRemove (x @ kw @ p) = None)
       \<or> (\<exists>z. \<forall>p. list_all notPipe p \<longrightarrow> matchRemove (x @ kw @ p) = Some (z @ p, []))
       \<or> (\<exists>n r. length r < length x
              \<and> (\<forall>p. list_all notPipe p \<longrightarrow> matchRemove (x @ kw @ p) = Some (n, r @ kw @ p)))"
proof -
  note kl = keyword_length [OF assms(1)]
  have len: "length removeKeyword \<le> length (x @ kw)"
    by (simp add: kl removeKeyword_length)
  have lit: "matchLit removeKeyword (x @ kw @ p)
               = map_option (\<lambda>z. z @ p) (matchLit removeKeyword (x @ kw))" for p
    using matchLit_append [OF len, of p] by simp
  show ?thesis
  proof (cases "matchLit removeKeyword (x @ kw)")
    case None
    with lit have "\<forall>p. list_all notPipe p \<longrightarrow> matchRemove (x @ kw @ p) = None"
      by (simp add: matchRemove_flat)
    then show ?thesis by blast
  next
    case (Some z)
    from matchLit_rest [OF Some] have z: "z = drop 13 x @ drop (13 - length x) kw"
      by (simp add: removeKeyword_length)
    have "length z = length x" unfolding z by (simp add: kl)
    with assms(2) have zne: "z \<noteq> []" by auto
    have l2: "matchLit removeKeyword (x @ kw @ p) = Some (z @ p)" for p
      using lit [of p] Some by simp
    show ?thesis
    proof (cases "list_all notPipe z")
      case True
      have "matchRemove (x @ kw @ p) = Some (z @ p, [])" if "list_all notPipe p" for p
      proof -
        from True that have "takeWhile notPipe (z @ p) = z @ p" "dropWhile notPipe (z @ p) = []"
          by (simp_all add: list_all_iff)
        with zne show ?thesis by (simp add: matchRemove_flat l2)
      qed
      then show ?thesis by blast
    next
      case False
      have b: "list_all notPipe (drop (13 - length x) kw)"
        using keyword_notPipe [OF assms(1)] by (rule list_all_drop)
      with False have na: "\<not> list_all notPipe (drop 13 x)" unfolding z by auto
      then have "drop 13 x \<noteq> []" by auto
      then have lx: "13 < length x" by simp
      with z have z': "z = drop 13 x @ kw" by simp
      note wa = while_append_inside(1,2) [OF na, of kw] while_append_inside(3) [OF na]
      have tw: "takeWhile notPipe (z @ p) = takeWhile notPipe (drop 13 x)" for p
        using while_append_inside(1) [OF False, of p] wa(1) unfolding z' by simp
      have dw: "dropWhile notPipe (z @ p) = dropWhile notPipe (drop 13 x) @ kw @ p" for p
        using while_append_inside(2) [OF False, of p] wa(2) unfolding z' by simp
      show ?thesis
      proof (cases "takeWhile notPipe (drop 13 x) = []")
        case True
        then have "\<forall>p. list_all notPipe p \<longrightarrow> matchRemove (x @ kw @ p) = None"
          by (simp add: matchRemove_flat l2 tw)
        then show ?thesis by blast
      next
        case False
        have "length (dropWhile notPipe (drop 13 x)) \<le> length (drop 13 x)"
          by (rule length_dropWhile_le)
        with lx have lr: "length (dropWhile notPipe (drop 13 x)) < length x" by simp
        from False have "\<forall>p. list_all notPipe p \<longrightarrow>
            matchRemove (x @ kw @ p)
              = Some (takeWhile notPipe (drop 13 x), dropWhile notPipe (drop 13 x) @ kw @ p)"
          by (simp add: matchRemove_flat l2 tw dw)
        with lr show ?thesis by blast
      qed
    qed
  qed
qed

lemma removeAll_keyword_prose:
  assumes "matchLit removeKeyword kw = Some []" and "p \<noteq> []" and "list_all notPipe p"
  shows "removeAllFrom matchRemove 0 (kw @ p) = []"
proof -
  from matchRemove_keyword [OF assms, of "[]"] have m: "matchRemove (kw @ p) = Some (p, [])" by simp
  from keyword_head(1) [OF assms(1)] obtain c cs where kw: "kw = c # cs" by (cases kw) auto
  from m show ?thesis unfolding kw by (simp add: removeAllFrom_over)
qed

lemma removeAll_remove_indep:
  assumes "matchLit removeKeyword kw = Some []"
      and "p1 \<noteq> []" and "list_all notPipe p1" and "p2 \<noteq> []" and "list_all notPipe p2"
  shows "(k1 = k2 \<and> k1 \<le> length t) \<or> (length (t @ kw @ p1) \<le> k1 \<and> length (t @ kw @ p2) \<le> k2)
         \<Longrightarrow> removeAllFrom matchRemove k1 (t @ kw @ p1) = removeAllFrom matchRemove k2 (t @ kw @ p2)"
proof (induction t arbitrary: k1 k2)
  case Nil
  then consider "k1 = 0" "k2 = 0" | "length (kw @ p1) \<le> k1" "length (kw @ p2) \<le> k2" by auto
  then show ?case
  proof cases
    case 1
    then show ?thesis
      by (simp add: removeAll_keyword_prose [OF assms(1,2,3)] removeAll_keyword_prose [OF assms(1,4,5)])
  next
    case 2
    then show ?thesis by (simp add: removeAllFrom_over)
  qed
next
  case (Cons c t)
  from Cons.prems consider
      (over) "length ((c # t) @ kw @ p1) \<le> k1" "length ((c # t) @ kw @ p2) \<le> k2"
    | (skip) j where "k1 = Suc j" "k2 = Suc j" "j \<le> length t"
    | (scan) "k1 = 0" "k2 = 0"
    by (cases k1) auto
  then show ?case
  proof cases
    case over
    then show ?thesis by (simp only: removeAllFrom_over)
  next
    case skip
    from skip(3) have "removeAllFrom matchRemove j (t @ kw @ p1) = removeAllFrom matchRemove j (t @ kw @ p2)"
      by (intro Cons.IH) simp
    with skip(1,2) show ?thesis by simp
  next
    case scan
    have ne: "c # t \<noteq> []" by simp
    from matchRemove_before_keyword [OF assms(1) ne] consider
        (none) "\<forall>p. list_all notPipe p \<longrightarrow> matchRemove ((c # t) @ kw @ p) = None"
      | (all) z where "\<forall>p. list_all notPipe p \<longrightarrow> matchRemove ((c # t) @ kw @ p) = Some (z @ p, [])"
      | (part) n r where "length r < length (c # t)"
          "\<forall>p. list_all notPipe p \<longrightarrow> matchRemove ((c # t) @ kw @ p) = Some (n, r @ kw @ p)"
      by blast
    then show ?thesis
    proof cases
      case none
      with assms(3,5) have "matchRemove (c # t @ kw @ p1) = None" "matchRemove (c # t @ kw @ p2) = None"
        by simp_all
      moreover have "removeAllFrom matchRemove 0 (t @ kw @ p1) = removeAllFrom matchRemove 0 (t @ kw @ p2)"
        by (intro Cons.IH) simp
      ultimately show ?thesis using scan by simp
    next
      case all
      with assms(3,5) have "matchRemove (c # t @ kw @ p1) = Some (z @ p1, [])"
        "matchRemove (c # t @ kw @ p2) = Some (z @ p2, [])"
        by simp_all
      then show ?thesis using scan by (simp add: removeAllFrom_over)
    next
      case part
      with assms(3,5) have "matchRemove (c # t @ kw @ p1) = Some (n, r @ kw @ p1)"
        "matchRemove (c # t @ kw @ p2) = Some (n, r @ kw @ p2)"
        by simp_all
      moreover have "removeAllFrom matchRemove (length t - length r) (t @ kw @ p1)
                     = removeAllFrom matchRemove (length t - length r) (t @ kw @ p2)"
        by (intro Cons.IH) simp
      ultimately show ?thesis using scan by simp
    qed
  qed
qed

lemma removeAll_remove_subseq:
  assumes "matchLit removeKeyword kw = Some []" and "p \<noteq> []" and "list_all notPipe p"
  shows "k \<le> length t \<or> length (t @ kw @ p) \<le> k
         \<Longrightarrow> subseq (removeAllFrom matchRemove k (t @ kw @ p)) t"
proof (induction t arbitrary: k)
  case Nil
  then consider "k = 0" | "length (kw @ p) \<le> k" by auto
  then show ?case
  proof cases
    case 1
    then show ?thesis by (simp add: removeAll_keyword_prose [OF assms])
  next
    case 2
    then show ?thesis by (simp add: removeAllFrom_over)
  qed
next
  case (Cons c t)
  from Cons.prems consider
      (over) "length ((c # t) @ kw @ p) \<le> k"
    | (skip) j where "k = Suc j" "j \<le> length t"
    | (scan) "k = 0"
    by (cases k) auto
  then show ?case
  proof cases
    case over
    then show ?thesis by (simp only: removeAllFrom_over list_emb_Nil)
  next
    case skip
    from skip(2) have "subseq (removeAllFrom matchRemove j (t @ kw @ p)) t"
      by (intro Cons.IH) simp
    with skip(1) show ?thesis by (auto intro: list_emb_Cons)
  next
    case scan
    have ne: "c # t \<noteq> []" by simp
    from matchRemove_before_keyword [OF assms(1) ne] consider
        (none) "\<forall>p. list_all notPipe p \<longrightarrow> matchRemove ((c # t) @ kw @ p) = None"
      | (all) z where "\<forall>p. list_all notPipe p \<longrightarrow> matchRemove ((c # t) @ kw @ p) = Some (z @ p, [])"
      | (part) n r where "length r < length (c # t)"
          "\<forall>p. list_all notPipe p \<longrightarrow> matchRemove ((c # t) @ kw @ p) = Some (n, r @ kw @ p)"
      by blast
    then show ?thesis
    proof cases
      case none
      with assms(3) have "matchRemove (c # t @ kw @ p) = None" by simp
      moreover have "subseq (removeAllFrom matchRemove 0 (t @ kw @ p)) t"
        by (intro Cons.IH) simp
      ultimately show ?thesis using scan by (auto intro: list_emb_Cons)
    next
      case all
      with assms(3) have "matchRemove (c # t @ kw @ p) = Some (z @ p, [])" by simp
      then show ?thesis using scan by (auto simp: removeAllFrom_over intro: list_emb_Cons)
    next
      case part
      with assms(3) have "matchRemove (c # t @ kw @ p) = Some (n, r @ kw @ p)" by simp
      moreover have "subseq (removeAllFrom matchRemove (length t - length r) (t @ kw @ p)) t"
        by (intro Cons.IH) simp
      ultimately show ?thesis using scan by (auto intro: list_emb_Cons)
    qed
  qed
qed

lemma removeAllFrom_subseq: "subseq (removeAllFrom m k s) s"
proof (induction s arbitrary: k)
  case Nil
  then show ?case by simp
next
  case (Cons c cs)
  show ?case
  proof (cases k)
    case (Suc j)
    with Cons [of j] show ?thesis by (auto intro: list_emb_Cons)
  next
    case 0
    show ?thesis
    proof (cases "m (c # cs)")
      case None
      with 0 Cons [of 0] show ?thesis by (auto intro: list_emb_Cons)
    next
      case (Some a)
      obtain caps rest where "a = (caps, rest)" by (cases a)
      with Some 0 Cons [of "length cs - length rest"] show ?thesis by (auto intro: list_emb_Cons)
    qed
  qed
qed

lemma trim_subseq: "subseq (trim s) s"
proof -
  have "sublist (dropWhile isSpace (rev (dropWhile isSpace s))) (rev (dropWhile isSpace s))"
    by (rule suffix_imp_sublist) (rule suffix_dropWhile)
  then have "sublist (trim s) (dropWhile isSpace s)"
    by (simp add: trim_def sublist_rev_left)
  then have "subseq (trim s) (dropWhile isSpace s)" by (rule sublist_imp_subseq)
  moreover have "subseq (dropWhile isSpace s) s"
    by (rule suffix_imp_subseq) (rule suffix_dropWhile)
  ultimately show ?thesis by (rule subseq_order.trans)
qed

section \<open>What the \<open>ORDER_REMOVE\<close> capture takes\<close>

lemma matchAllFrom_skip: "matchAllFrom m k xs = matchAllFrom m 0 (drop k xs)"
proof (induction xs arbitrary: k)
  case Nil
  then show ?case by simp
next
  case (Cons c cs)
  then show ?case by (cases k) simp_all
qed

lemma removeAllFrom_skip: "removeAllFrom m k xs = removeAllFrom m 0 (drop k xs)"
proof (induction xs arbitrary: k)
  case Nil
  then show ?case by simp
next
  case (Cons c cs)
  then show ?case by (cases k) simp_all
qed

lemma noMatchBefore_scan:
  "noMatchBefore m pre rest \<Longrightarrow>
     matchAllFrom m 0 (pre @ rest) = matchAllFrom m 0 rest
     \<and> removeAllFrom m 0 (pre @ rest) = pre @ removeAllFrom m 0 rest"
  by (induction pre) simp_all

lemma keyword_scan:
  assumes "matchLit removeKeyword kw = Some []" and "prose \<noteq> []" and "list_all notPipe prose"
      and "tail = [] \<or> hd tail = CHR ''|''"
  shows "matchAllFrom matchRemove 0 (kw @ prose @ tail) = (kw @ prose) # matchAllFrom matchRemove 0 tail"
    and "removeAllFrom matchRemove 0 (kw @ prose @ tail) = removeAllFrom matchRemove 0 tail"
proof -
  note m = matchRemove_keyword [OF assms]
  from keyword_head(1) [OF assms(1)] obtain c cs where kw: "kw = c # cs" by (cases kw) auto
  have d: "drop (length (cs @ prose @ tail) - length tail) (cs @ prose @ tail) = tail" by simp
  have t: "take (Suc (length (cs @ prose @ tail)) - length tail) (c # cs @ prose @ tail) = c # cs @ prose"
    by (simp add: Suc_diff_le)
  from m have m': "matchRemove (c # cs @ prose @ tail) = Some (prose, tail)" unfolding kw by simp
  have "matchAllFrom matchRemove 0 (c # cs @ prose @ tail)
          = (c # cs @ prose) # matchAllFrom matchRemove (length (cs @ prose @ tail) - length tail) (cs @ prose @ tail)"
    using m' t by simp
  also have "matchAllFrom matchRemove (length (cs @ prose @ tail) - length tail) (cs @ prose @ tail)
          = matchAllFrom matchRemove 0 tail"
    using matchAllFrom_skip [of matchRemove "length (cs @ prose @ tail) - length tail" "cs @ prose @ tail"]
    unfolding d .
  finally show "matchAllFrom matchRemove 0 (kw @ prose @ tail) = (kw @ prose) # matchAllFrom matchRemove 0 tail"
    unfolding kw by simp
  have "removeAllFrom matchRemove 0 (c # cs @ prose @ tail)
          = removeAllFrom matchRemove (length (cs @ prose @ tail) - length tail) (cs @ prose @ tail)"
    using m' by simp
  also have "\<dots> = removeAllFrom matchRemove 0 tail"
    using removeAllFrom_skip [of matchRemove "length (cs @ prose @ tail) - length tail" "cs @ prose @ tail"]
    unfolding d .
  finally show "removeAllFrom matchRemove 0 (kw @ prose @ tail) = removeAllFrom matchRemove 0 tail"
    unfolding kw by simp
qed

lemma keyword_exec:
  assumes "matchLit removeKeyword kw = Some []" and "prose \<noteq> []" and "list_all notPipe prose"
  shows "execFirst matchRemove (kw @ prose) = Some prose"
proof -
  from matchRemove_keyword [OF assms, of "[]"] have m: "matchRemove (kw @ prose) = Some (prose, [])" by simp
  from keyword_head(1) [OF assms(1)] obtain c cs where kw: "kw = c # cs" by (cases kw) auto
  from m show ?thesis unfolding kw by simp
qed

lemma O_not_in_quantity: "CHR ''O'' \<notin> set ''QUANTITY:''"
  by simp

lemma add_pass_keeps_remove:
  assumes "matchLit removeKeyword kw = Some []" and "p \<noteq> []" and "list_all notPipe p"
  shows "removeAllFrom matchAdd 0 (pre @ kw @ p) = removeAllFrom matchAdd 0 pre @ kw @ p"
proof -
  note h = keyword_head [OF assms(1)]
  have v1: "kw @ p \<noteq> []" using h(1) by simp
  have v2: "list_all notPipe (kw @ p)" using keyword_notPipe [OF assms(1)] assms(3) by simp
  have hd: "hd (kw @ p) = hd kw" using h(1) by simp
  have v3: "\<not> isDigit (hd (kw @ p))" unfolding hd by (rule h(3))
  have v4: "toUpperChar (hd (kw @ p)) \<notin> set ''QUANTITY:''"
    unfolding hd h(2) by (rule O_not_in_quantity)
  have "0 \<le> length pre" by simp
  from removeAll_QD_append [OF v1 v2 v3 v4 this, of "''ORDER_ADD:''"]
  show ?thesis by (simp add: matchAdd_def)
qed

lemma while_exact:
  assumes "list_all P xs" and "v = [] \<or> \<not> P (hd v)"
  shows "takeWhile P (xs @ v) = xs" and "dropWhile P (xs @ v) = v"
proof -
  from assms(2) have "takeWhile P v = []" "dropWhile P v = v"
    by (auto simp: takeWhile_eq_Nil_iff dropWhile_eq_self_iff)
  with assms(1) show "takeWhile P (xs @ v) = xs" and "dropWhile P (xs @ v) = v"
    by (simp_all add: list_all_iff)
qed

lemma matchAll_QD_pipefree:
  "list_all notPipe x \<Longrightarrow> matchAllFrom (matchQuantityDirective K) 0 x = []"
proof (induction x)
  case Nil
  then show ?case by simp
next
  case (Cons c cs)
  from Cons.prems have "matchQuantityDirective K (c # cs) = None" by (rule matchQD_pipefree)
  moreover from Cons.prems have "list_all notPipe cs" by simp
  ultimately show ?case using Cons.IH by simp
qed

lemma matchAdd_at_pipe: "matchAdd (CHR ''|'' # t) = None"
  by (simp add: matchAdd_def matchQuantityDirective_def toUpperChar_def upperLetters_def
        lowerLetters_def)

lemma add_pass_head:
  assumes "tail = [] \<or> hd tail = CHR ''|''"
  shows "removeAllFrom matchAdd 0 tail = [] \<or> hd (removeAllFrom matchAdd 0 tail) = CHR ''|''"
proof (cases tail)
  case Nil
  then show ?thesis by simp
next
  case (Cons c t)
  with assms have "c = CHR ''|''" by simp
  with Cons show ?thesis by (simp add: matchAdd_at_pipe)
qed

lemma remove_block:
  assumes "matchLit removeKeyword kw = Some []" and "prose \<noteq> []" and "list_all notPipe prose"
      and "tail = [] \<or> hd tail = CHR ''|''"
      and "noMatchBefore matchRemove pre (kw @ prose @ tail)"
  shows "foldl processRemove s1 (matchAllFrom matchRemove 0 (pre @ kw @ prose @ tail))
           = foldl processRemove
               (case findMenuItem (trim prose) of
                  Some menuItem \<Rightarrow> removeItemFromOrder (mid menuItem) s1
                | None \<Rightarrow> s1)
               (matchAllFrom matchRemove 0 tail)"
proof -
  have e: "execFirst matchRemove (kw @ prose) = Some prose"
    using assms(1,2,3) by (rule keyword_exec)
  have "matchAllFrom matchRemove 0 (pre @ kw @ prose @ tail)
          = (kw @ prose) # matchAllFrom matchRemove 0 tail"
    using noMatchBefore_scan [OF assms(5)] keyword_scan(1) [OF assms(1,2,3,4)] by simp
  then show ?thesis by (simp add: processRemove_def e)
qed

lemma quantityLit_at_tail:
  assumes "tail = [] \<or> matchLit ''|QUANTITY:'' tail = None"
  shows "matchLit ''|QUANTITY:'' tail = None"
  using assms by auto

lemma quantityTail_run_to_tail:
  assumes "list_all notPipe r" and "tail = [] \<or> hd tail = CHR ''|''"
      and "tail = [] \<or> matchLit ''|QUANTITY:'' tail = None"
  shows "(let itemName = takeWhile notPipe (r @ tail) in
           if itemName = [] then None
           else (case matchLit ''|QUANTITY:'' (dropWhile notPipe (r @ tail)) of
                   None \<Rightarrow> None
                 | Some r2 \<Rightarrow>
                     (let quantityStr = takeWhile isDigit r2 in
                      if quantityStr = [] then None
                      else Some ((itemName, quantityStr), dropWhile isDigit r2)))) = None"
proof -
  from assms(2) have stop: "tail = [] \<or> \<not> notPipe (hd tail)" by (auto simp: notPipe_def)
  note w = while_exact [OF assms(1) stop]
  note lit = quantityLit_at_tail [OF assms(3)]
  show ?thesis unfolding Let_def w lit by simp
qed

lemma matchQD_before_run:
  assumes "w \<noteq> []" and "list_all notPipe w" and "\<not> isDigit (hd w)"
      and "toUpperChar (hd w) \<notin> set ''QUANTITY:''" and "length K \<le> length w"
      and "tail = [] \<or> hd tail = CHR ''|''"
      and "tail = [] \<or> matchLit ''|QUANTITY:'' tail = None"
  shows "matchQuantityDirective K (u @ w @ tail)
           = map_option (\<lambda>(caps, rest). (caps, rest @ w @ tail)) (matchQuantityDirective K u)"
proof (cases "length K \<le> length u")
  case False
  then have n: "matchLit K u = None" by (simp add: matchLit_char)
  have "matchQuantityDirective K (u @ w @ tail) = None"
  proof (cases "matchLit K (u @ w @ tail)")
    case None
    then show ?thesis by (simp add: matchQuantityDirective_def)
  next
    case (Some r)
    from matchLit_rest [OF Some] have "r = drop (length K) (u @ w @ tail)" by (rule conjunct1)
    with False assms(5) have r: "r = drop (length K - length u) w @ tail" by simp
    from assms(2) have "list_all notPipe (drop (length K - length u) w)" by (rule list_all_drop)
    from quantityTail_run_to_tail [OF this assms(6,7)] Some show ?thesis
      unfolding r by (simp add: matchQuantityDirective_def)
  qed
  with n show ?thesis by (simp add: matchQuantityDirective_def)
next
  case True
  from matchLit_append [OF True, of "w @ tail"]
  have lit: "matchLit K (u @ w @ tail) = map_option (\<lambda>z. z @ w @ tail) (matchLit K u)" by simp
  have v1: "w @ tail \<noteq> []" using assms(1) by simp
  have hd: "hd (w @ tail) = hd w" using assms(1) by simp
  have v3: "\<not> isDigit (hd (w @ tail))" unfolding hd by (rule assms(3))
  have v4: "toUpperChar (hd (w @ tail)) \<notin> set ''QUANTITY:''" unfolding hd by (rule assms(4))
  show ?thesis
  proof (cases "matchLit K u")
    case None
    with lit show ?thesis by (simp add: matchQuantityDirective_def)
  next
    case (Some r1)
    with lit have l2: "matchLit K (u @ w @ tail) = Some (r1 @ w @ tail)" by simp
    show ?thesis
    proof (cases "list_all notPipe r1")
      case pf: True
      with assms(2) have "list_all notPipe (r1 @ w)" by simp
      from quantityTail_run_to_tail [OF this assms(6,7), unfolded append_assoc] quantityTail_pipefree [OF pf] l2 Some
      show ?thesis by (simp add: matchQuantityDirective_def)
    next
      case npf: False
      note wi = while_append_inside(1,2) [OF npf, of "w @ tail"] while_append_inside(3) [OF npf]
      have dl: "matchLit ''|QUANTITY:'' (dropWhile notPipe r1 @ w @ tail)
                  = map_option (\<lambda>z. z @ w @ tail) (matchLit ''|QUANTITY:'' (dropWhile notPipe r1))"
        using wi(3) v1 v4 by (rule quantityLit_append)
      show ?thesis
      proof (cases "takeWhile notPipe r1 = []")
        case True
        then show ?thesis
          by (simp add: matchQuantityDirective_def Let_def l2 Some wi(1))
      next
        case name: False
        show ?thesis
        proof (cases "matchLit ''|QUANTITY:'' (dropWhile notPipe r1)")
          case None
          with dl have "matchLit ''|QUANTITY:'' (dropWhile notPipe r1 @ w @ tail) = None" by simp
          with None name show ?thesis
            by (simp add: matchQuantityDirective_def Let_def l2 Some wi(1,2))
        next
          case q: (Some r2)
          note d = while_append_stop [where P = isDigit and v = "w @ tail" and r = r2, OF v1 v3]
          from q dl have q2: "matchLit ''|QUANTITY:'' (dropWhile notPipe r1 @ w @ tail) = Some (r2 @ w @ tail)"
            by simp
          show ?thesis
          proof (cases "takeWhile isDigit r2 = []")
            case True
            with name show ?thesis
              by (simp add: matchQuantityDirective_def Let_def l2 Some wi(1,2) q q2 d)
          next
            case False
            with name show ?thesis
              by (simp add: matchQuantityDirective_def Let_def l2 Some wi(1,2) q q2 d)
          qed
        qed
      qed
    qed
  qed
qed

lemma matchQD_inside_run:
  assumes "list_all notPipe w"
      and "tail = [] \<or> hd tail = CHR ''|''"
      and "tail = [] \<or> matchLit ''|QUANTITY:'' tail = None"
      and "CHR ''|'' \<notin> set (map toUpperChar K)"
  shows "matchQuantityDirective K (w @ tail) = None"
proof (cases "matchLit K (w @ tail)")
  case None
  then show ?thesis by (simp add: matchQuantityDirective_def)
next
  case (Some r)
  have le: "length K \<le> length w"
  proof (rule ccontr)
    assume "\<not> length K \<le> length w"
    then have lt: "length w < length K" by simp
    from matchLit_rest [OF Some] lt have "tail \<noteq> []" by auto
    from matchLit_span [OF Some lt this]
    have "toUpperChar (hd tail) \<in> set (map toUpperChar (drop (length w) K))" .
    then have "toUpperChar (hd tail) \<in> set (drop (length w) (map toUpperChar K))"
      by (simp only: drop_map)
    then have "toUpperChar (hd tail) \<in> set (map toUpperChar K)" by (rule in_set_dropD)
    moreover from assms(2) \<open>tail \<noteq> []\<close> have "hd tail = CHR ''|''" by simp
    ultimately show False using assms(4) by (simp add: toUpperChar_pipe_self)
  qed
  from matchLit_rest [OF Some] have "r = drop (length K) (w @ tail)" by (rule conjunct1)
  with le have r: "r = drop (length K) w @ tail" by simp
  from assms(1) have "list_all notPipe (drop (length K) w)" by (rule list_all_drop)
  from quantityTail_run_to_tail [OF this assms(2,3)] Some show ?thesis
    unfolding r by (simp add: matchQuantityDirective_def)
qed

lemma removeAll_QD_inside_run:
  assumes "tail = [] \<or> hd tail = CHR ''|''"
      and "tail = [] \<or> matchLit ''|QUANTITY:'' tail = None"
      and "CHR ''|'' \<notin> set (map toUpperChar K)"
  shows "list_all notPipe w \<Longrightarrow>
           removeAllFrom (matchQuantityDirective K) 0 (w @ tail)
             = w @ removeAllFrom (matchQuantityDirective K) 0 tail"
proof (induction w)
  case Nil
  then show ?case by simp
next
  case (Cons c w)
  from matchQD_inside_run [OF Cons.prems assms]
  have "matchQuantityDirective K (c # w @ tail) = None" by simp
  moreover from Cons.prems have "list_all notPipe w" by simp
  ultimately show ?case using Cons.IH by simp
qed

lemma removeAll_QD_before_run:
  assumes "w \<noteq> []" and "list_all notPipe w" and "\<not> isDigit (hd w)"
      and "toUpperChar (hd w) \<notin> set ''QUANTITY:''" and "length K \<le> length w"
      and "tail = [] \<or> hd tail = CHR ''|''"
      and "tail = [] \<or> matchLit ''|QUANTITY:'' tail = None"
      and "CHR ''|'' \<notin> set (map toUpperChar K)"
  shows "k \<le> length u \<Longrightarrow>
           removeAllFrom (matchQuantityDirective K) k (u @ w @ tail)
             = removeAllFrom (matchQuantityDirective K) k u @ w
                 @ removeAllFrom (matchQuantityDirective K) 0 tail"
proof (induction u arbitrary: k)
  case Nil
  then show ?case by (simp add: removeAll_QD_inside_run [OF assms(6,7,8) assms(2)])
next
  case (Cons c u)
  show ?case
  proof (cases k)
    case (Suc j)
    with Cons.prems have "j \<le> length u" by simp
    with Suc Cons.IH show ?thesis by simp
  next
    case 0
    have m: "matchQuantityDirective K (c # u @ w @ tail)
               = map_option (\<lambda>(caps, rest). (caps, rest @ w @ tail)) (matchQuantityDirective K (c # u))"
      using matchQD_before_run [OF assms(1-7), of "c # u"] by simp
    show ?thesis
    proof (cases "matchQuantityDirective K (c # u)")
      case None
      with m 0 Cons.IH [of 0] show ?thesis by simp
    next
      case (Some a)
      obtain caps rest where a: "a = (caps, rest)" by (cases a)
      have "length u - length rest \<le> length u" by simp
      from Cons.IH [OF this] m Some a 0 show ?thesis by simp
    qed
  qed
qed

lemma add_keyword_no_pipe: "CHR ''|'' \<notin> set (map toUpperChar ''ORDER_ADD:'')"
  by (simp add: toUpperChar_def upperLetters_def lowerLetters_def)

lemma add_pass_around_remove:
  assumes "matchLit removeKeyword kw = Some []" and "prose \<noteq> []" and "list_all notPipe prose"
      and "tail = [] \<or> hd tail = CHR ''|''"
      and "tail = [] \<or> matchLit ''|QUANTITY:'' tail = None"
  shows "removeAllFrom matchAdd 0 (pre @ kw @ prose @ tail)
           = removeAllFrom matchAdd 0 pre @ kw @ prose @ removeAllFrom matchAdd 0 tail"
proof -
  note h = keyword_head [OF assms(1)]
  have v1: "kw @ prose \<noteq> []" using h(1) by simp
  have v2: "list_all notPipe (kw @ prose)" using keyword_notPipe [OF assms(1)] assms(3) by simp
  have hd: "hd (kw @ prose) = hd kw" using h(1) by simp
  have v3: "\<not> isDigit (hd (kw @ prose))" unfolding hd by (rule h(3))
  have v4: "toUpperChar (hd (kw @ prose)) \<notin> set ''QUANTITY:''"
    unfolding hd h(2) by (rule O_not_in_quantity)
  have v5: "length ''ORDER_ADD:'' \<le> length (kw @ prose)"
    by (simp add: keyword_length [OF assms(1)])
  have "0 \<le> length pre" by simp
  from removeAll_QD_before_run [OF v1 v2 v3 v4 v5 assms(4,5) add_keyword_no_pipe this]
  show ?thesis by (simp add: matchAdd_def)
qed

text \<open>
  C10.  Let the model's text be \<open>pre @ kw @ prose @ tail\<close>, where \<open>kw\<close> is the keyword
  \<open>ORDER_REMOVE:\<close> (in any letter case) and \<open>prose\<close> a non-empty run without \<open>|\<close>.
  \<^item> When the run ends at a \<open>|\<close> or at the end of the text, the expression matches there
    with the whole run as its capture group.  If no earlier position matches, the scan of
    the text yields the substring \<open>kw @ prose\<close> as a match, \<open>replace\<close> deletes exactly
    that substring before going on behind it, and the REMOVE block of
    \<open>processOrderInstructions\<close> asks \<open>findMenuItem\<close> for the trimmed run and removes the
    item found from the session that the ADD block left, before it turns to the matches
    of the tail.
  \<^item> When the \<open>|\<close> that ends the run does not begin \<open>|QUANTITY:\<close>, the first
    \<open>replace\<close> of \<open>cleanResponse\<close> leaves keyword and run where they are.  Whenever it
    does, and no \<open>ORDER_REMOVE\<close> match begins earlier in what it leaves, the message shown
    to the user is computed from the text before the keyword and the text from the
    \<open>|\<close> on: keyword and run are deleted from it.
  \<^item> When there is no \<open>|\<close> before the keyword and the run goes to the end of the text,
    \<open>processOrderInstructions\<close> does exactly this: it removes the item that
    \<open>findMenuItem\<close> finds for the trimmed run, and nothing if it finds none.
  \<^item> The second match of the loop body reads the whole run back, and the run, trimmed, is
    what \<open>findMenuItem\<close> is asked to resolve.
  \<^item> When the run goes to the end of the text, the message shown to the user is the same
    whatever the run says, and it is made of characters that stood before the keyword:
    nothing of the run reaches the user.
\<close>

theorem remove_directive_takes_all_text:
  assumes "matchLit removeKeyword kw = Some []" and "prose \<noteq> []" and "list_all notPipe prose"
  shows "(tail = [] \<or> hd tail = CHR ''|'' \<longrightarrow>
            matchRemove (kw @ prose @ tail) = Some (prose, tail)
          \<and> (noMatchBefore matchRemove pre (kw @ prose @ tail) \<longrightarrow>
               matchAllFrom matchRemove 0 (pre @ kw @ prose @ tail)
                 = (kw @ prose) # matchAllFrom matchRemove 0 tail
             \<and> removeAllFrom matchRemove 0 (pre @ kw @ prose @ tail)
                 = pre @ removeAllFrom matchRemove 0 tail
             \<and> processOrderInstructions (pre @ kw @ prose @ tail) s
                 = (let s1 = foldl processAdd s (matchAllFrom matchAdd 0 (pre @ kw @ prose @ tail));
                        s2 = foldl processRemove
                               (case findMenuItem (trim prose) of
                                  Some menuItem \<Rightarrow> removeItemFromOrder (mid menuItem) s1
                                | None \<Rightarrow> s1)
                               (matchAllFrom matchRemove 0 tail)
                    in foldl processUpdate s2 (matchAllFrom matchUpdate 0 (pre @ kw @ prose @ tail))))
          \<and> (matchLit ''|QUANTITY:'' tail = None \<longrightarrow>
               removeAllFrom matchAdd 0 (pre @ kw @ prose @ tail)
                 = removeAllFrom matchAdd 0 pre @ kw @ prose @ removeAllFrom matchAdd 0 tail)
          \<and> (removeAllFrom matchAdd 0 (pre @ kw @ prose @ tail)
                 = removeAllFrom matchAdd 0 pre @ kw @ prose @ removeAllFrom matchAdd 0 tail
              \<and> noMatchBefore matchRemove (removeAllFrom matchAdd 0 pre)
                    (kw @ prose @ removeAllFrom matchAdd 0 tail) \<longrightarrow>
               cleanResponse (pre @ kw @ prose @ tail)
                 = trim (removeAllFrom matchUpdate 0
                           (removeAllFrom matchAdd 0 pre
                              @ removeAllFrom matchRemove 0 (removeAllFrom matchAdd 0 tail)))))
       \<and> (list_all notPipe pre \<and> noMatchBefore matchRemove pre (kw @ prose) \<longrightarrow>
            processOrderInstructions (pre @ kw @ prose) s
              = (case findMenuItem (trim prose) of
                   Some menuItem \<Rightarrow> removeItemFromOrder (mid menuItem) s
                 | None \<Rightarrow> s))
       \<and> execFirst matchRemove (kw @ prose) = Some prose
       \<and> processRemove s (kw @ prose)
           = (case findMenuItem (trim prose) of
                Some menuItem \<Rightarrow> removeItemFromOrder (mid menuItem) s
              | None \<Rightarrow> s)
       \<and> (\<forall>prose'. prose' \<noteq> [] \<and> list_all notPipe prose' \<longrightarrow>
             cleanResponse (pre @ kw @ prose) = cleanResponse (pre @ kw @ prose'))
       \<and> subseq (cleanResponse (pre @ kw @ prose)) pre"
proof (intro conjI impI allI)
  assume t: "tail = [] \<or> hd tail = CHR ''|''"
  show "matchRemove (kw @ prose @ tail) = Some (prose, tail)"
    using assms t by (rule matchRemove_keyword)
  {
    assume n: "noMatchBefore matchRemove pre (kw @ prose @ tail)"
    note sc = noMatchBefore_scan [OF n]
    show "matchAllFrom matchRemove 0 (pre @ kw @ prose @ tail)
            = (kw @ prose) # matchAllFrom matchRemove 0 tail"
      using sc keyword_scan(1) [OF assms t] by simp
    show "removeAllFrom matchRemove 0 (pre @ kw @ prose @ tail) = pre @ removeAllFrom matchRemove 0 tail"
      using sc keyword_scan(2) [OF assms t] by simp
    show "processOrderInstructions (pre @ kw @ prose @ tail) s
                 = (let s1 = foldl processAdd s (matchAllFrom matchAdd 0 (pre @ kw @ prose @ tail));
                        s2 = foldl processRemove
                               (case findMenuItem (trim prose) of
                                  Some menuItem \<Rightarrow> removeItemFromOrder (mid menuItem) s1
                                | None \<Rightarrow> s1)
                               (matchAllFrom matchRemove 0 tail)
                    in foldl processUpdate s2 (matchAllFrom matchUpdate 0 (pre @ kw @ prose @ tail)))"
      unfolding processOrderInstructions_def Let_def
      by (simp only: remove_block [OF assms t n])
  }
  {
    assume "matchLit ''|QUANTITY:'' tail = None"
    then have q: "tail = [] \<or> matchLit ''|QUANTITY:'' tail = None" by simp
    show "removeAllFrom matchAdd 0 (pre @ kw @ prose @ tail)
            = removeAllFrom matchAdd 0 pre @ kw @ prose @ removeAllFrom matchAdd 0 tail"
      using assms t q by (rule add_pass_around_remove)
  }
  {
    assume a: "removeAllFrom matchAdd 0 (pre @ kw @ prose @ tail)
                 = removeAllFrom matchAdd 0 pre @ kw @ prose @ removeAllFrom matchAdd 0 tail
              \<and> noMatchBefore matchRemove (removeAllFrom matchAdd 0 pre)
                    (kw @ prose @ removeAllFrom matchAdd 0 tail)"
    note t' = add_pass_head [OF t]
    from a have n: "noMatchBefore matchRemove (removeAllFrom matchAdd 0 pre)
                    (kw @ prose @ removeAllFrom matchAdd 0 tail)" by simp
    have "removeAllFrom matchRemove 0
            (removeAllFrom matchAdd 0 pre @ kw @ prose @ removeAllFrom matchAdd 0 tail)
          = removeAllFrom matchAdd 0 pre @ removeAllFrom matchRemove 0 (removeAllFrom matchAdd 0 tail)"
      using noMatchBefore_scan [OF n] keyword_scan(2) [OF assms t'] by simp
    with a show "cleanResponse (pre @ kw @ prose @ tail)
                 = trim (removeAllFrom matchUpdate 0
                           (removeAllFrom matchAdd 0 pre
                              @ removeAllFrom matchRemove 0 (removeAllFrom matchAdd 0 tail)))"
      by (simp add: cleanResponse_def)
  }
next
  assume b: "list_all notPipe pre \<and> noMatchBefore matchRemove pre (kw @ prose)"
  then have pf: "list_all notPipe (pre @ kw @ prose)"
    using keyword_notPipe [OF assms(1)] assms(3) by simp
  have add: "matchAllFrom matchAdd 0 (pre @ kw @ prose) = []"
    unfolding matchAdd_def using pf by (rule matchAll_QD_pipefree)
  have upd: "matchAllFrom matchUpdate 0 (pre @ kw @ prose) = []"
    unfolding matchUpdate_def using pf by (rule matchAll_QD_pipefree)
  have t0: "[] = [] \<or> hd [] = CHR ''|''" by simp
  from b have n: "noMatchBefore matchRemove pre (kw @ prose @ [])" by simp
  from remove_block [OF assms t0 n, of s]
  show "processOrderInstructions (pre @ kw @ prose) s
              = (case findMenuItem (trim prose) of
                   Some menuItem \<Rightarrow> removeItemFromOrder (mid menuItem) s
                 | None \<Rightarrow> s)"
    by (simp add: processOrderInstructions_def add upd)
next
  show e: "execFirst matchRemove (kw @ prose) = Some prose"
    using assms by (rule keyword_exec)
  show "processRemove s (kw @ prose)
           = (case findMenuItem (trim prose) of
                Some menuItem \<Rightarrow> removeItemFromOrder (mid menuItem) s
              | None \<Rightarrow> s)"
    by (simp add: processRemove_def e)
next
  fix prose'
  assume p': "prose' \<noteq> [] \<and> list_all notPipe prose'"
  then have p1: "prose' \<noteq> []" and p2: "list_all notPipe prose'" by simp_all
  have "removeAllFrom matchRemove 0 (removeAllFrom matchAdd 0 pre @ kw @ prose)
          = removeAllFrom matchRemove 0 (removeAllFrom matchAdd 0 pre @ kw @ prose')"
    using assms p1 p2 by (rule removeAll_remove_indep) simp
  then show "cleanResponse (pre @ kw @ prose) = cleanResponse (pre @ kw @ prose')"
    by (simp add: cleanResponse_def add_pass_keeps_remove [OF assms] add_pass_keeps_remove [OF assms(1) p1 p2])
next
  have a: "subseq (removeAllFrom matchRemove 0 (removeAllFrom matchAdd 0 pre @ kw @ prose))
             (removeAllFrom matchAdd 0 pre)"
    using assms by (rule removeAll_remove_subseq) simp
  have b: "subseq (removeAllFrom matchAdd 0 pre) pre" by (rule removeAllFrom_subseq)
  have c: "subseq (removeAllFrom matchUpdate 0
                     (removeAllFrom matchRemove 0 (removeAllFrom matchAdd 0 pre @ kw @ prose)))
             (removeAllFrom matchRemove 0 (removeAllFrom matchAdd 0 pre @ kw @ prose))"
    by (rule removeAllFrom_subseq)
  have d: "subseq (cleanResponse (pre @ kw @ prose))
             (removeAllFrom matchUpdate 0
                     (removeAllFrom matchRemove 0 (removeAllFrom matchAdd 0 pre @ kw @ prose)))"
    unfolding cleanResponse_def add_pass_keeps_remove [OF assms] by (rule trim_subseq)
  from d c have "subseq (cleanResponse (pre @ kw @ prose))
             (removeAllFrom matchRemove 0 (removeAllFrom matchAdd 0 pre @ kw @ prose))"
    by (rule subseq_order.trans)
  from this a have "subseq (cleanResponse (pre @ kw @ prose)) (removeAllFrom matchAdd 0 pre)"
    by (rule subseq_order.trans)
  from this b show "subseq (cleanResponse (pre @ kw @ prose)) pre"
    by (rule subseq_order.trans)
qed

text \<open>
  Instances, on an order of one Fried Rice and one Chapman.  The removal example of the
  system prompt behind the words \<open>Sure. \<close>: the sentence after the item name is part of
  the match and of the name given to \<open>findMenuItem\<close> (which still finds Fried Rice,
  because the name contains it), \<open>removeItemFromOrder\<close> is applied for Fried Rice (its
  filter keeps that line and drops the other), and the user sees \<open>Sure.\<close> only.  The
  same with a lower-case keyword and a run ended by a \<open>|\<close>: the words between the
  item name and the \<open>|\<close> go the same way, and the message resumes at the \<open>|\<close>.
\<close>

theorem remove_directive_takes_all_text_witness:
  "matchAllFrom matchRemove 0 ''Sure. ORDER_REMOVE:Fried Rice Alright, Fried Rice has been removed.''
     = [''ORDER_REMOVE:Fried Rice Alright, Fried Rice has been removed.'']
   \<and> execFirst matchRemove ''ORDER_REMOVE:Fried Rice Alright, Fried Rice has been removed.''
     = Some ''Fried Rice Alright, Fried Rice has been removed.''
   \<and> findMenuItem (trim ''Fried Rice Alright, Fried Rice has been removed.'') = Some fried_rice
   \<and> currentOrder (processOrderInstructions
         ''Sure. ORDER_REMOVE:Fried Rice Alright, Fried Rice has been removed.'' friedRiceSession)
     = \<lparr>items = [friedRiceLine 1], totalCost = 2800\<rparr>
   \<and> cleanResponse ''Sure. ORDER_REMOVE:Fried Rice Alright, Fried Rice has been removed.'' = ''Sure.''
   \<and> matchAllFrom matchRemove 0 ''Ok. order_remove:Fried Rice is gone now | bye''
     = [''order_remove:Fried Rice is gone now '']
   \<and> currentOrder (processOrderInstructions
         ''Ok. order_remove:Fried Rice is gone now | bye'' friedRiceSession)
     = \<lparr>items = [friedRiceLine 1], totalCost = 2800\<rparr>
   \<and> cleanResponse ''Ok. order_remove:Fried Rice is gone now | bye'' = ''Ok. | bye''"
proof -
  have h1: "matchLit removeKeyword ''ORDER_REMOVE:'' = Some []" by code_simp
  have h2: "removeExample \<noteq> []" by (simp add: removeExample_def)
  have h3: "list_all notPipe removeExample" by code_simp
  have h4: "[] = [] \<or> hd [] = CHR ''|''" by simp
  have h5: "noMatchBefore matchRemove ''Sure. '' (''ORDER_REMOVE:'' @ removeExample @ [])" by code_simp
  have h6: "''x'' \<noteq> [] \<and> list_all notPipe ''x''" by (simp add: notPipe_def)
  have h7: "list_all notPipe ''Sure. '' \<and> noMatchBefore matchRemove ''Sure. '' (''ORDER_REMOVE:'' @ removeExample)"
    by code_simp
  note t = remove_directive_takes_all_text [OF h1 h2 h3, of "[]" "''Sure. ''" friedRiceSession]
  from t h4 h5 have a: "matchAllFrom matchRemove 0 (''Sure. '' @ ''ORDER_REMOVE:'' @ removeExample @ [])
       = (''ORDER_REMOVE:'' @ removeExample) # matchAllFrom matchRemove 0 []" by blast
  from t have b: "execFirst matchRemove (''ORDER_REMOVE:'' @ removeExample) = Some removeExample" by blast
  from t h6 have c: "cleanResponse (''Sure. '' @ ''ORDER_REMOVE:'' @ removeExample)
       = cleanResponse (''Sure. '' @ ''ORDER_REMOVE:'' @ ''x'')" by blast
  have d: "cleanResponse (''Sure. '' @ ''ORDER_REMOVE:'' @ ''x'') = ''Sure.''" by code_simp
  have e: "findMenuItem (trim removeExample) = Some fried_rice" by code_simp
  from t h7 have f: "processOrderInstructions (''Sure. '' @ ''ORDER_REMOVE:'' @ removeExample) friedRiceSession
       = (case findMenuItem (trim removeExample) of
            Some menuItem \<Rightarrow> removeItemFromOrder (mid menuItem) friedRiceSession
          | None \<Rightarrow> friedRiceSession)" by blast
  have g: "currentOrder (removeItemFromOrder (mid fried_rice) friedRiceSession)
       = \<lparr>items = [friedRiceLine 1], totalCost = 2800\<rparr>" by code_simp
  have k1: "matchLit removeKeyword ''order_remove:'' = Some []" by code_simp
  have k2: "''Fried Rice is gone now '' \<noteq> []" by simp
  have k3: "list_all notPipe ''Fried Rice is gone now ''" by code_simp
  have k4: "''| bye'' = [] \<or> hd ''| bye'' = CHR ''|''" by simp
  have k5: "noMatchBefore matchRemove ''Ok. '' (''order_remove:'' @ ''Fried Rice is gone now '' @ ''| bye'')"
    by code_simp
  have k6: "matchLit ''|QUANTITY:'' ''| bye'' = None" by code_simp
  have k7: "noMatchBefore matchRemove (removeAllFrom matchAdd 0 ''Ok. '')
              (''order_remove:'' @ ''Fried Rice is gone now '' @ removeAllFrom matchAdd 0 ''| bye'')"
    by code_simp
  note u = remove_directive_takes_all_text [OF k1 k2 k3, of "''| bye''" "''Ok. ''" friedRiceSession]
  from u k4 k5 have l: "matchAllFrom matchRemove 0
         (''Ok. '' @ ''order_remove:'' @ ''Fried Rice is gone now '' @ ''| bye'')
       = (''order_remove:'' @ ''Fried Rice is gone now '') # matchAllFrom matchRemove 0 ''| bye''"
    by blast
  have l': "matchAllFrom matchRemove 0 ''| bye'' = []" by code_simp
  from u k4 k5 have m: "processOrderInstructions
         (''Ok. '' @ ''order_remove:'' @ ''Fried Rice is gone now '' @ ''| bye'') friedRiceSession
       = (let s1 = foldl processAdd friedRiceSession
                     (matchAllFrom matchAdd 0
                        (''Ok. '' @ ''order_remove:'' @ ''Fried Rice is gone now '' @ ''| bye''));
              s2 = foldl processRemove
                     (case findMenuItem (trim ''Fried Rice is gone now '') of
                        Some menuItem \<Rightarrow> removeItemFromOrder (mid menuItem) s1
                      | None \<Rightarrow> s1)
                     (matchAllFrom matchRemove 0 ''| bye'')
          in foldl processUpdate s2
               (matchAllFrom matchUpdate 0
                  (''Ok. '' @ ''order_remove:'' @ ''Fried Rice is gone now '' @ ''| bye'')))"
    by blast
  have m': "currentOrder (let s1 = foldl processAdd friedRiceSession
                     (matchAllFrom matchAdd 0
                        (''Ok. '' @ ''order_remove:'' @ ''Fried Rice is gone now '' @ ''| bye''));
              s2 = foldl processRemove
                     (case findMenuItem (trim ''Fried Rice is gone now '') of
                        Some menuItem \<Rightarrow> removeItemFromOrder (mid menuItem) s1
                      | None \<Rightarrow> s1)
                     (matchAllFrom matchRemove 0 ''| bye'')
          in foldl processUpdate s2
               (matchAllFrom matchUpdate 0
                  (''Ok. '' @ ''order_remove:'' @ ''Fried Rice is gone now '' @ ''| bye'')))
       = \<lparr>items = [friedRiceLine 1], totalCost = 2800\<rparr>" by code_simp
  from u k4 k6 have n: "removeAllFrom matchAdd 0
         (''Ok. '' @ ''order_remove:'' @ ''Fried Rice is gone now '' @ ''| bye'')
       = removeAllFrom matchAdd 0 ''Ok. '' @ ''order_remove:'' @ ''Fried Rice is gone now ''
           @ removeAllFrom matchAdd 0 ''| bye''" by blast
  from u k4 n k7 have o: "cleanResponse
         (''Ok. '' @ ''order_remove:'' @ ''Fried Rice is gone now '' @ ''| bye'')
       = trim (removeAllFrom matchUpdate 0
                 (removeAllFrom matchAdd 0 ''Ok. ''
                    @ removeAllFrom matchRemove 0 (removeAllFrom matchAdd 0 ''| bye'')))" by blast
  have o': "trim (removeAllFrom matchUpdate 0
                 (removeAllFrom matchAdd 0 ''Ok. ''
                    @ removeAllFrom matchRemove 0 (removeAllFrom matchAdd 0 ''| bye''))) = ''Ok. | bye''"
    by code_simp
  from a b c d e have first: "matchAllFrom matchRemove 0 ''Sure. ORDER_REMOVE:Fried Rice Alright, Fried Rice has been removed.''
     = [''ORDER_REMOVE:Fried Rice Alright, Fried Rice has been removed.'']
   \<and> execFirst matchRemove ''ORDER_REMOVE:Fried Rice Alright, Fried Rice has been removed.''
     = Some ''Fried Rice Alright, Fried Rice has been removed.''
   \<and> findMenuItem (trim ''Fried Rice Alright, Fried Rice has been removed.'') = Some fried_rice
   \<and> cleanResponse ''Sure. ORDER_REMOVE:Fried Rice Alright, Fried Rice has been removed.'' = ''Sure.''"
    by (simp add: removeExample_def)
  from f e g have second: "currentOrder (processOrderInstructions
         ''Sure. ORDER_REMOVE:Fried Rice Alright, Fried Rice has been removed.'' friedRiceSession)
     = \<lparr>items = [friedRiceLine 1], totalCost = 2800\<rparr>"
    by (simp add: removeExample_def)
  from l l' have third: "matchAllFrom matchRemove 0 ''Ok. order_remove:Fried Rice is gone now | bye''
     = [''order_remove:Fried Rice is gone now '']" by simp
  from m m' have fourth: "currentOrder (processOrderInstructions
         ''Ok. order_remove:Fried Rice is gone now | bye'' friedRiceSession)
     = \<lparr>items = [friedRiceLine 1], totalCost = 2800\<rparr>" by simp
  from o o' have fifth: "cleanResponse ''Ok. order_remove:Fried Rice is gone now | bye'' = ''Ok. | bye''"
    by simp
  from first second third fourth fifth show ?thesis by blast
qed

section \<open>The second match in the loop bodies\<close>

lemma matchLit_take:
  assumes "matchLit k s = Some r"
  shows "matchLit k (take (length k) s) = Some []" and "s = take (length k) s @ r"
    and "length (take (length k) s) = length k"
proof -
  from assms have a: "length k \<le> length s"
    and b: "map toUpperChar (take (length k) s) = map toUpperChar k"
    and c: "r = drop (length k) s"
    by (simp_all add: matchLit_char split: if_splits)
  from a show l: "length (take (length k) s) = length k" by simp
  from a b show "matchLit k (take (length k) s) = Some []"
    by (simp add: matchLit_char)
  from c show "s = take (length k) s @ r" by simp
qed

lemma takeWhile_all: "list_all P (takeWhile P xs)"
  by (induction xs) simp_all

lemma matchRemove_stable:
  assumes "matchRemove s = Some (cap, rest)"
  shows "matchRemove (take (length s - length rest) s) = Some (cap, [])"
    and "length rest < length s"
proof -
  from assms obtain r1 where lit: "matchLit removeKeyword s = Some r1"
    and cap: "cap = takeWhile notPipe r1" and ne: "cap \<noteq> []" and rest: "rest = dropWhile notPipe r1"
    by (auto simp: matchRemove_flat split: option.splits if_splits)
  define kw where "kw = take (length removeKeyword) s"
  note k = matchLit_take [OF lit, folded kw_def]
  have r1: "r1 = cap @ rest" unfolding cap rest by simp
  have s: "s = kw @ cap @ rest" using k(2) r1 by simp
  have tk: "take (length s - length rest) s = kw @ cap" by (simp add: s)
  have pf: "list_all notPipe cap" unfolding cap by (rule takeWhile_all)
  from matchRemove_keyword [OF k(1) ne pf, of "[]"]
  show "matchRemove (take (length s - length rest) s) = Some (cap, [])"
    unfolding tk by simp
  from ne show "length rest < length s" by (simp add: s)
qed

lemma quantityLit_head:
  assumes "matchLit ''|QUANTITY:'' d = Some r"
  shows "d \<noteq> []" and "hd d = CHR ''|''"
proof -
  from assms show ne: "d \<noteq> []" by (cases d) simp_all
  then obtain c cs where d: "d = c # cs" by (cases d) auto
  with assms have "toUpperChar c = toUpperChar (CHR ''|'')" by (simp split: if_splits)
  then have "c = CHR ''|''" by (simp add: toUpperChar_pipe_self toUpperChar_pipe)
  with d show "hd d = CHR ''|''" by simp
qed

lemma matchQD_flat:
  "matchQuantityDirective K s =
     (case matchLit K s of
        None \<Rightarrow> None
      | Some r1 \<Rightarrow>
          if takeWhile notPipe r1 = [] then None
          else (case matchLit ''|QUANTITY:'' (dropWhile notPipe r1) of
                  None \<Rightarrow> None
                | Some r2 \<Rightarrow>
                    if takeWhile isDigit r2 = [] then None
                    else Some ((takeWhile notPipe r1, takeWhile isDigit r2), dropWhile isDigit r2)))"
  by (simp add: matchQuantityDirective_def Let_def split: option.split)

lemma matchQD_stable:
  assumes "matchQuantityDirective K s = Some (caps, rest)"
  shows "matchQuantityDirective K (take (length s - length rest) s) = Some (caps, [])"
    and "length rest < length s"
proof -
  from assms obtain r1 r2 where lit: "matchLit K s = Some r1"
    and name: "takeWhile notPipe r1 \<noteq> []"
    and q: "matchLit ''|QUANTITY:'' (dropWhile notPipe r1) = Some r2"
    and ds: "takeWhile isDigit r2 \<noteq> []"
    and caps: "caps = (takeWhile notPipe r1, takeWhile isDigit r2)"
    and rest: "rest = dropWhile isDigit r2"
    by (auto simp: matchQD_flat split: option.splits if_splits)
  define kw where "kw = take (length K) s"
  define name where "name = takeWhile notPipe r1"
  define lt where "lt = take (length ''|QUANTITY:'') (dropWhile notPipe r1)"
  define dgs where "dgs = takeWhile isDigit r2"
  note k = matchLit_take [OF lit, folded kw_def]
  note l = matchLit_take [OF q, folded lt_def]
  have r2: "r2 = dgs @ rest" unfolding rest dgs_def by simp
  have d: "dropWhile notPipe r1 = lt @ dgs @ rest" using l(2) r2 by simp
  have r1: "r1 = name @ lt @ dgs @ rest"
    using d takeWhile_dropWhile_id [of notPipe r1] unfolding name_def by simp
  have s: "s = kw @ name @ lt @ dgs @ rest" using k(2) r1 by simp
  have tk: "take (length s - length rest) s = kw @ name @ lt @ dgs" by (simp add: s)
  have "length K \<le> length kw" by (simp add: k(3))
  from matchLit_append [OF this, of "name @ lt @ dgs"] k(1)
  have m1: "matchLit K (kw @ name @ lt @ dgs) = Some (name @ lt @ dgs)" by simp
  note h = quantityLit_head [OF q]
  have lne: "lt \<noteq> []" using l(3) by auto
  with d have "hd (lt @ dgs) = hd (dropWhile notPipe r1)" by simp
  with h(2) have stop: "lt @ dgs = [] \<or> \<not> notPipe (hd (lt @ dgs))"
    by (simp add: notPipe_def)
  have npf: "list_all notPipe name" unfolding name_def by (rule takeWhile_all)
  note w = while_exact [OF npf stop]
  have "length ''|QUANTITY:'' \<le> length lt" by (simp add: l(3))
  from matchLit_append [OF this, of dgs] l(1)
  have m2: "matchLit ''|QUANTITY:'' (lt @ dgs) = Some dgs" by simp
  have dpf: "list_all isDigit dgs" unfolding dgs_def by (rule takeWhile_all)
  then have dg: "takeWhile isDigit dgs = dgs" "dropWhile isDigit dgs = []"
    by (simp_all add: list_all_iff)
  from name ds have ne: "name \<noteq> []" "dgs \<noteq> []" by (simp_all add: name_def dgs_def)
  have cp: "caps = (name, dgs)" by (simp add: caps name_def dgs_def)
  show "matchQuantityDirective K (take (length s - length rest) s) = Some (caps, [])"
    unfolding tk by (simp add: matchQD_flat m1 w ne m2 dg cp)
  from ne show "length rest < length s" by (simp add: s)
qed

lemma matchAllFrom_rematch:
  assumes stable: "\<And>s caps rest. m s = Some (caps, rest) \<Longrightarrow>
             m (take (length s - length rest) s) = Some (caps, []) \<and> length rest < length s"
  shows "x \<in> set (matchAllFrom m k s) \<Longrightarrow> \<exists>caps. m x = Some (caps, []) \<and> execFirst m x = Some caps"
proof (induction s arbitrary: k)
  case Nil
  then show ?case by simp
next
  case (Cons c cs)
  show ?case
  proof (cases k)
    case (Suc j)
    with Cons show ?thesis by simp
  next
    case 0
    show ?thesis
    proof (cases "m (c # cs)")
      case None
      with 0 Cons show ?thesis by simp
    next
      case (Some a)
      obtain caps rest where a: "a = (caps, rest)" by (cases a)
      from stable [of "c # cs" caps rest] Some a
      have st: "m (take (Suc (length cs) - length rest) (c # cs)) = Some (caps, [])"
        and lt: "length rest < Suc (length cs)" by simp_all
      from Cons.prems 0 Some a consider
          "x = take (Suc (length cs) - length rest) (c # cs)"
        | "x \<in> set (matchAllFrom m (length cs - length rest) cs)" by auto
      then show ?thesis
      proof cases
        case 1
        from lt obtain n where n: "Suc (length cs) - length rest = Suc n"
          by (cases "Suc (length cs) - length rest") auto
        from st have "execFirst m (take (Suc (length cs) - length rest) (c # cs)) = Some caps"
          unfolding n by simp
        with st 1 show ?thesis by simp
      next
        case 2
        then show ?thesis by (rule Cons.IH)
      qed
    qed
  qed
qed

text \<open>
  Every substring that the scan of \<open>processOrderInstructions\<close> hands to a loop body matches
  the loop's expression again, at its first character and with the same capture groups: a
  match cut out of the text is still a match on its own.  So the destructuring of the second
  match never meets \<open>null\<close>, and the \<open>None\<close> branches of \<open>processAdd\<close>, \<open>processRemove\<close> and
  \<open>processUpdate\<close> are never taken.
\<close>

theorem second_match_never_fails:
  "(x \<in> set (matchAllFrom matchAdd 0 aiResponse) \<longrightarrow> execFirst matchAdd x \<noteq> None)
   \<and> (x \<in> set (matchAllFrom matchRemove 0 aiResponse) \<longrightarrow> execFirst matchRemove x \<noteq> None)
   \<and> (x \<in> set (matchAllFrom matchUpdate 0 aiResponse) \<longrightarrow> execFirst matchUpdate x \<noteq> None)"
proof (intro conjI impI)
  assume "x \<in> set (matchAllFrom matchAdd 0 aiResponse)"
  from matchAllFrom_rematch [OF _ this] matchQD_stable [of "''ORDER_ADD:''"]
  show "execFirst matchAdd x \<noteq> None" unfolding matchAdd_def by fastforce
next
  assume "x \<in> set (matchAllFrom matchRemove 0 aiResponse)"
  from matchAllFrom_rematch [OF _ this] matchRemove_stable
  show "execFirst matchRemove x \<noteq> None" by fastforce
next
  assume "x \<in> set (matchAllFrom matchUpdate 0 aiResponse)"
  from matchAllFrom_rematch [OF _ this] matchQD_stable [of "''ORDER_UPDATE:''"]
  show "execFirst matchUpdate x \<noteq> None" unfolding matchUpdate_def by fastforce
qed

end
